theory Spec2Isabelle
  imports Main "HOL-Library.Multiset"
begin

section \<open>Values, registries and errors\<close>

text \<open>
  The source file \<^verbatim>\<open>typed-function2.js\<close> holds two versions of the library, one after
  the other. The definitions below embed the first, the one that builds a fast path for the
  first six defs and a generic loop behind it; every function keeps the name it has there.

  The engine never inspects the payload of a value; it
  only applies the registered type tests to it. The datatype below has one constructor
  for each kind of JavaScript value that the built-in tests of \<^verbatim>\<open>create()\<close>
  tell apart. The payload of a number is an integer here (its arithmetic is not used),
  functions, dates, regular expressions and plain objects carry an opaque identity.
\<close>

datatype val =
    VUndefined
  | VNull
  | VNumber int
  | VString string
  | VBoolean bool
  | VFunction nat
  | VArray "val list"
  | VDate nat
  | VRegExp nat
  | VObject nat

text \<open>\<^verbatim>\<open>Infinity\<close>, \<^verbatim>\<open>-Infinity\<close> and the array lengths in between, as
  \<^verbatim>\<open>Math.min\<close> and \<^verbatim>\<open>Math.max\<close> over a list of lengths produce them.\<close>

datatype extnum = NegInfinity | Num nat | Infinity

fun extnum_less :: "extnum \<Rightarrow> extnum \<Rightarrow> bool" where
  "extnum_less NegInfinity NegInfinity = False"
| "extnum_less NegInfinity _ = True"
| "extnum_less (Num a) (Num b) = (a < b)"
| "extnum_less (Num a) Infinity = True"
| "extnum_less (Num a) NegInfinity = False"
| "extnum_less Infinity _ = False"

definition extnum_min :: "extnum \<Rightarrow> extnum \<Rightarrow> extnum" where
  "extnum_min a b = (if extnum_less b a then b else a)"

definition extnum_max :: "extnum \<Rightarrow> extnum \<Rightarrow> extnum" where
  "extnum_max a b = (if extnum_less a b then b else a)"

text \<open>\<^verbatim>\<open>Math.min.apply(null, lengths)\<close>: \<^verbatim>\<open>Infinity\<close> for no arguments.\<close>

definition Math_min :: "extnum list \<Rightarrow> extnum" where
  "Math_min lengths = foldr extnum_min lengths Infinity"

text \<open>\<^verbatim>\<open>Math.max.apply(null, lengths)\<close>: \<^verbatim>\<open>-Infinity\<close> for no arguments.\<close>

definition Math_max :: "extnum list \<Rightarrow> extnum" where
  "Math_max lengths = foldr extnum_max lengths NegInfinity"

text \<open>The \<^verbatim>\<open>data\<close> field attached to the errors of a call, one constructor for each
  \<^verbatim>\<open>category\<close>; \<open>NoData\<close> for an error without the field.\<close>

datatype err_data =
    WrongType string nat string "string list"
  | TooFewArgs string nat "string list"
  | TooManyArgs string nat extnum
  | Mismatch "string list"
  | NoData

fun category :: "err_data \<Rightarrow> string" where
  "category (WrongType f i a e) = ''wrongType''"
| "category (TooFewArgs f i e) = ''tooFewArgs''"
| "category (TooManyArgs f i l) = ''tooManyArgs''"
| "category (Mismatch a) = ''mismatch''"
| "category NoData = ''''"

text \<open>A thrown value: the constructor is the JavaScript error class, the string is the
  message.\<close>

datatype error =
    SyntaxError string
  | TypeError string err_data
  | Error string

text \<open>A JavaScript function from an argument list to a result; it may throw.\<close>

type_synonym fn = "val list \<Rightarrow> error + val"

text \<open>The entries of \<^verbatim>\<open>typed.types\<close> and of \<^verbatim>\<open>typed.conversions\<close>. The tests and the
  conversion functions are taken to be pure and total. The fields \<^verbatim>\<open>from\<close> and
  \<^verbatim>\<open>to\<close> of a conversion are \<open>conv_from\<close> and \<open>conv_to\<close> here.\<close>

record type_entry =
  name :: string
  test :: "val \<Rightarrow> bool"

record conversion =
  conv_from :: string
  conv_to :: string
  convert :: "val \<Rightarrow> val"

text \<open>The object \<^verbatim>\<open>typed\<close> as the functions of the module read it: the three
  arrays \<^verbatim>\<open>typed.types\<close>, \<^verbatim>\<open>typed.conversions\<close> and \<^verbatim>\<open>typed.ignore\<close>.\<close>

record typed_registry =
  types :: "type_entry list"
  conversions :: "conversion list"
  ignore :: "string list"

definition ok :: "val \<Rightarrow> bool" where
  "ok x = True"

definition notOk :: "val \<Rightarrow> bool" where
  "notOk x = False"

definition undef :: fn where
  "undef args = Inr VUndefined"

fun typeof_number :: "val \<Rightarrow> bool" where
  "typeof_number (VNumber n) = True"
| "typeof_number _ = False"

fun typeof_string :: "val \<Rightarrow> bool" where
  "typeof_string (VString s) = True"
| "typeof_string _ = False"

fun typeof_boolean :: "val \<Rightarrow> bool" where
  "typeof_boolean (VBoolean b) = True"
| "typeof_boolean _ = False"

fun typeof_function :: "val \<Rightarrow> bool" where
  "typeof_function (VFunction f) = True"
| "typeof_function _ = False"

fun isArray :: "val \<Rightarrow> bool" where
  "isArray (VArray xs) = True"
| "isArray _ = False"

fun instanceof_Date :: "val \<Rightarrow> bool" where
  "instanceof_Date (VDate d) = True"
| "instanceof_Date _ = False"

fun instanceof_RegExp :: "val \<Rightarrow> bool" where
  "instanceof_RegExp (VRegExp r) = True"
| "instanceof_RegExp _ = False"

text \<open>\<^verbatim>\<open>typeof x === 'object'\<close> holds of \<^verbatim>\<open>null\<close>, of arrays, dates and regular
  expressions as well as of plain objects.\<close>

fun typeof_object :: "val \<Rightarrow> bool" where
  "typeof_object VNull = True"
| "typeof_object (VArray xs) = True"
| "typeof_object (VDate d) = True"
| "typeof_object (VRegExp r) = True"
| "typeof_object (VObject obj) = True"
| "typeof_object _ = False"

text \<open>The initial \<^verbatim>\<open>_types\<close> of \<^verbatim>\<open>create()\<close>, in the order of the source.\<close>

definition default_types :: "type_entry list" where
  "default_types =
    [ \<lparr>name = ''number'',    test = typeof_number\<rparr>,
      \<lparr>name = ''string'',    test = typeof_string\<rparr>,
      \<lparr>name = ''boolean'',   test = typeof_boolean\<rparr>,
      \<lparr>name = ''Function'',  test = typeof_function\<rparr>,
      \<lparr>name = ''Array'',     test = isArray\<rparr>,
      \<lparr>name = ''Date'',      test = instanceof_Date\<rparr>,
      \<lparr>name = ''RegExp'',    test = instanceof_RegExp\<rparr>,
      \<lparr>name = ''Object'',    test = typeof_object\<rparr>,
      \<lparr>name = ''null'',      test = (\<lambda>x. x = VNull)\<rparr>,
      \<lparr>name = ''undefined'', test = (\<lambda>x. x = VUndefined)\<rparr>,
      \<lparr>name = ''any'',       test = ok\<rparr> ]"

text \<open>The state in which \<^verbatim>\<open>create()\<close> leaves the three arrays.\<close>

definition create :: typed_registry where
  "create = \<lparr>types = default_types, conversions = [], ignore = []\<rparr>"

text \<open>\<^verbatim>\<open>typed.addType\<close> and \<^verbatim>\<open>typed.addConversion\<close> push onto the arrays. Their shape
  checks (a string name, a function test) cannot fail on a \<^typ>\<open>type_entry\<close> or a
  \<^typ>\<open>conversion\<close>, so the throwing branch has no counterpart here.\<close>

definition addType :: "typed_registry \<Rightarrow> type_entry \<Rightarrow> typed_registry" where
  "addType typed ty = typed\<lparr>types := types typed @ [ty]\<rparr>"

definition addConversion :: "typed_registry \<Rightarrow> conversion \<Rightarrow> typed_registry" where
  "addConversion typed c = typed\<lparr>conversions := conversions typed @ [c]\<rparr>"

section \<open>Strings\<close>

text \<open>Strings are lists of 8-bit characters. \<open>is_space\<close> holds of the characters that
  \<^verbatim>\<open>String.prototype.trim\<close> strips in that range: tab, line feed, vertical tab, form
  feed, carriage return, space and the no-break space.\<close>

definition is_space :: "char \<Rightarrow> bool" where
  "is_space c \<longleftrightarrow> c \<in> set [CHR 0x09, CHR 0x0A, CHR 0x0B, CHR 0x0C, CHR 0x0D, CHR 0x20, CHR 0xA0]"

definition trim :: "string \<Rightarrow> string" where
  "trim str = rev (dropWhile is_space (rev (dropWhile is_space str)))"

definition notEmpty :: "string \<Rightarrow> bool" where
  "notEmpty str \<longleftrightarrow> str \<noteq> []"

text \<open>\<^verbatim>\<open>str.split(c)\<close> for a one-character separator: the empty string gives one
  empty piece.\<close>

fun split :: "char \<Rightarrow> string \<Rightarrow> string list" where
  "split c [] = [[]]"
| "split c (x # xs) =
     (if x = c then [] # split c xs
      else (case split c xs of
              [] \<Rightarrow> [[x]]
            | piece # pieces \<Rightarrow> (x # piece) # pieces))"

text \<open>\<^verbatim>\<open>arr.join(sep)\<close>.\<close>

fun join :: "string \<Rightarrow> string list \<Rightarrow> string" where
  "join sep [] = []"
| "join sep [x] = x"
| "join sep (x # y # ys) = x @ sep @ join sep (y # ys)"

text \<open>\<^verbatim>\<open>toLowerCase\<close> on the letters A to Z.\<close>

definition toLowerCase :: "string \<Rightarrow> string" where
  "toLowerCase str =
     map (\<lambda>c. if (65::nat) \<le> of_char c \<and> of_char c \<le> (90::nat)
              then char_of (of_char c + (32::nat)) else c) str"

definition quot :: string where
  "quot = [CHR 0x22]"

text \<open>The decimal digits of a number, as string concatenation prints it.\<close>

definition digit :: "nat \<Rightarrow> char" where
  "digit d = char_of (of_char CHR ''0'' + d)"

fun string_of_nat :: "nat \<Rightarrow> string" where
  "string_of_nat n =
     (let last_digit = digit (n mod 10) in
      if n < 10 then [last_digit] else string_of_nat (n div 10) @ [last_digit])"

declare string_of_nat.simps [simp del]

fun string_of_extnum :: "extnum \<Rightarrow> string" where
  "string_of_extnum NegInfinity = ''-Infinity''"
| "string_of_extnum (Num n) = string_of_nat n"
| "string_of_extnum Infinity = ''Infinity''"

section \<open>Signatures: parsing, printing, filtering\<close>

record signature =
  params :: "string list list"
  restParam :: bool

text \<open>\<^verbatim>\<open>parseParam\<close>: split on the bar, trim, drop the empty names.\<close>

definition parseParam :: "string \<Rightarrow> string list" where
  "parseParam param = filter notEmpty (map trim (split CHR ''|'' param))"

text \<open>The body of the \<^verbatim>\<open>forEach\<close> of \<^verbatim>\<open>parseParams\<close> over the trimmed pieces, from
  \<open>index\<close> on; \<open>len\<close> is \<^verbatim>\<open>arr.length\<close>. It returns the params pushed and the flag
  \<^verbatim>\<open>restParam\<close>, or the \<^verbatim>\<open>SyntaxError\<close> of a rest marker before the last piece.\<close>

fun parseParams_forEach :: "nat \<Rightarrow> nat \<Rightarrow> string list \<Rightarrow> error + (string list list \<times> bool)" where
  "parseParams_forEach len index [] = Inr ([], False)"
| "parseParams_forEach len index (param # others) =
     (let rest = (take 3 param = ''...'') in
      if rest \<and> Suc index \<noteq> len
      then Inl (SyntaxError (''Unexpected rest parameter '' @ quot @ param @ quot @ '': '' @
                             ''only allowed for the last parameter''))
      else (case parseParams_forEach len (Suc index) others of
              Inl e \<Rightarrow> Inl e
            | Inr (ps, r) \<Rightarrow>
                Inr (parseParam (if rest then (if length param > 3 then drop 3 param else ''any'')
                                 else param) # ps,
                     rest \<or> r)))"

definition parseParams :: "string \<Rightarrow> error + signature" where
  "parseParams sig =
     (if trim sig \<noteq> []
      then (let arr = split CHR '','' sig in
            case parseParams_forEach (length arr) 0 (map trim arr) of
              Inl e \<Rightarrow> Inl e
            | Inr (ps, r) \<Rightarrow> Inr \<lparr>params = ps, restParam = r\<rparr>)
      else Inr \<lparr>params = [], restParam = False\<rparr>)"

text \<open>\<^verbatim>\<open>stringifyParams\<close>: the map over the params with their index, then the join.\<close>

definition stringifyParams :: "signature \<Rightarrow> string" where
  "stringifyParams sg =
     join '',''
       (map (\<lambda>(param, index).
               (if restParam sg \<and> Suc index = length (params sg) then ''...'' else [])
               @ join ''|'' param)
            (zip (params sg) [0 ..< length (params sg)]))"

definition notIgnore :: "typed_registry \<Rightarrow> string \<Rightarrow> bool" where
  "notIgnore typed ty \<longleftrightarrow> ty \<notin> set (ignore typed)"

text \<open>\<^verbatim>\<open>filterIgnoredTypes\<close>: \<open>None\<close> is the \<^verbatim>\<open>null\<close> returned at the first param
  that has no type left.\<close>

fun filterIgnoredTypes_loop :: "typed_registry \<Rightarrow> string list list \<Rightarrow> string list list option" where
  "filterIgnoredTypes_loop typed [] = Some []"
| "filterIgnoredTypes_loop typed (p # ps) =
     (let param = filter (notIgnore typed) p in
      if length param = 0 then None
      else (case filterIgnoredTypes_loop typed ps of
              None \<Rightarrow> None
            | Some filteredParams \<Rightarrow> Some (param # filteredParams)))"

definition filterIgnoredTypes :: "typed_registry \<Rightarrow> signature \<Rightarrow> signature option" where
  "filterIgnoredTypes typed sg =
     (case filterIgnoredTypes_loop typed (params sg) of
        None \<Rightarrow> None
      | Some filteredParams \<Rightarrow> Some \<lparr>params = filteredParams, restParam = restParam sg\<rparr>)"

section \<open>Compiling the tests\<close>

text \<open>\<^verbatim>\<open>findTest\<close>: the test of the first entry with the name, or a \<^verbatim>\<open>TypeError\<close>
  with the hint.\<close>

definition findTest :: "typed_registry \<Rightarrow> string \<Rightarrow> error + (val \<Rightarrow> bool)" where
  "findTest typed ty =
     (case find (\<lambda>entry. name entry = ty) (types typed) of
        Some entry \<Rightarrow> Inr (test entry)
      | None \<Rightarrow>
          Inl (TypeError
                (''Unknown type '' @ quot @ ty @ quot @
                 (case find (\<lambda>entry. toLowerCase (name entry) = toLowerCase ty) (types typed) of
                    Some hint \<Rightarrow> ''. Did you mean '' @ quot @ name hint @ quot @ ''?''
                  | None \<Rightarrow> []))
                NoData))"

text \<open>\<^verbatim>\<open>arr.map(f)\<close> for an \<open>f\<close> that may throw: the first error, left to right.\<close>

fun map_throwing :: "('a \<Rightarrow> error + 'b) \<Rightarrow> 'a list \<Rightarrow> error + 'b list" where
  "map_throwing f [] = Inr []"
| "map_throwing f (x # xs) =
     (case f x of
        Inl e \<Rightarrow> Inl e
      | Inr y \<Rightarrow> (case map_throwing f xs of Inl e \<Rightarrow> Inl e | Inr ys \<Rightarrow> Inr (y # ys)))"

text \<open>\<^verbatim>\<open>compileParam\<close>. Its argument is \<open>None\<close> where the source passes
  \<^verbatim>\<open>undefined\<close> (a param index past the end of the params).\<close>

fun compileParam :: "typed_registry \<Rightarrow> string list option \<Rightarrow> error + (val \<Rightarrow> bool)" where
  "compileParam typed None = Inr ok"
| "compileParam typed (Some []) = Inr ok"
| "compileParam typed (Some [t0]) = findTest typed t0"
| "compileParam typed (Some [t0, t1]) =
     (case findTest typed t0 of
        Inl e \<Rightarrow> Inl e
      | Inr test0 \<Rightarrow>
          (case findTest typed t1 of
             Inl e \<Rightarrow> Inl e
           | Inr test1 \<Rightarrow> Inr (\<lambda>x. test0 x \<or> test1 x)))"
| "compileParam typed (Some param) =
     (case map_throwing (findTest typed) param of
        Inl e \<Rightarrow> Inl e
      | Inr tests \<Rightarrow> Inr (\<lambda>x. list_ex (\<lambda>t. t x) tests))"

text \<open>\<^verbatim>\<open>args[i]\<close>: \<^verbatim>\<open>undefined\<close> past the end.\<close>

definition arg_at :: "val list \<Rightarrow> nat \<Rightarrow> val" where
  "arg_at args i = (if i < length args then args ! i else VUndefined)"

text \<open>\<^verbatim>\<open>arr[i]\<close> on the params of a signature: \<open>None\<close> past the end.\<close>

definition param_at :: "string list list \<Rightarrow> nat \<Rightarrow> string list option" where
  "param_at ps i = (if i < length ps then Some (ps ! i) else None)"

text \<open>The loop \<^verbatim>\<open>for (i = 0; i < tests.length; i++) if (!tests[i](args[i])) return false\<close>.\<close>

definition tests_pass :: "(val \<Rightarrow> bool) list \<Rightarrow> val list \<Rightarrow> bool" where
  "tests_pass tests args \<longleftrightarrow> list_all (\<lambda>i. (tests ! i) (arg_at args i)) [0 ..< length tests]"

text \<open>\<^verbatim>\<open>compileParams\<close>. With a rest param the tests of \<^verbatim>\<open>initial(params)\<close> come first,
  then that of \<^verbatim>\<open>last(params)\<close>.\<close>

definition compileParams :: "typed_registry \<Rightarrow> signature \<Rightarrow> error + (val list \<Rightarrow> bool)" where
  "compileParams typed sg =
     (if restParam sg
      then (case map_throwing (compileParam typed) (map Some (butlast (params sg))) of
              Inl e \<Rightarrow> Inl e
            | Inr tests \<Rightarrow>
                (let varIndex = length tests in
                 case compileParam typed (param_at (params sg) (length (params sg) - 1)) of
                   Inl e \<Rightarrow> Inl e
                 | Inr lastTest \<Rightarrow>
                     Inr (\<lambda>args. tests_pass tests args \<and>
                                 list_all lastTest (drop varIndex args) \<and>
                                 length args \<ge> varIndex + 1)))
      else if length (params sg) = 0
      then Inr (\<lambda>args. length args = 0)
      else if length (params sg) = 1
      then (case compileParam typed (param_at (params sg) 0) of
              Inl e \<Rightarrow> Inl e
            | Inr test0 \<Rightarrow> Inr (\<lambda>args. test0 (arg_at args 0) \<and> length args = 1))
      else if length (params sg) = 2
      then (case compileParam typed (param_at (params sg) 0) of
              Inl e \<Rightarrow> Inl e
            | Inr test0 \<Rightarrow>
                (case compileParam typed (param_at (params sg) 1) of
                   Inl e \<Rightarrow> Inl e
                 | Inr test1 \<Rightarrow>
                     Inr (\<lambda>args. test0 (arg_at args 0) \<and> test1 (arg_at args 1) \<and> length args = 2)))
      else (case map_throwing (compileParam typed) (map Some (params sg)) of
              Inl e \<Rightarrow> Inl e
            | Inr tests \<Rightarrow> Inr (\<lambda>args. tests_pass tests args \<and> length args = length tests)))"

section \<open>Ordering the signatures\<close>

text \<open>\<^verbatim>\<open>createTypesIndexMap\<close>: every name gets the index of its entry (a later entry of
  the same name overwrites), then \<^verbatim>\<open>Object\<close> and \<^verbatim>\<open>any\<close> are put last.\<close>

definition createTypesIndexMap :: "type_entry list \<Rightarrow> (string \<rightharpoonup> nat)" where
  "createTypesIndexMap tys =
     (fold (\<lambda>(ty, index) m. m(name ty \<mapsto> index)) (zip tys [0 ..< length tys]) Map.empty)
       (''Object'' \<mapsto> length tys, ''any'' \<mapsto> length tys + 1)"

text \<open>In the three comparison functions \<open>None\<close> stands for \<^verbatim>\<open>undefined\<close> and
  \<^verbatim>\<open>NaN\<close>, which a name missing from the map or an empty param produce and which
  \<^verbatim>\<open>Math.min\<close> and the subtraction propagate.\<close>

definition getLowestTypeIndex :: "string list \<Rightarrow> (string \<rightharpoonup> nat) \<Rightarrow> nat option" where
  "getLowestTypeIndex param typesIndexMap =
     (case param of
        [] \<Rightarrow> None
      | p0 # ps \<Rightarrow>
          foldl (\<lambda>m p. case (m, typesIndexMap p) of
                          (Some a, Some b) \<Rightarrow> Some (min a b)
                        | _ \<Rightarrow> None)
                (typesIndexMap p0) ps)"

definition compareParams :: "string list \<Rightarrow> string list \<Rightarrow> (string \<rightharpoonup> nat) \<Rightarrow> int option" where
  "compareParams param1 param2 typesIndexMap =
     (case (getLowestTypeIndex param1 typesIndexMap, getLowestTypeIndex param2 typesIndexMap) of
        (Some a, Some b) \<Rightarrow> Some (int a - int b)
      | _ \<Rightarrow> None)"

text \<open>The loop of \<^verbatim>\<open>compareSignatures\<close> over the common prefix: \<open>Some c\<close> when it
  returns \<open>c\<close> (any \<open>c\<close> that is not the number 0), \<open>None\<close> when it runs to its end.\<close>

fun compareSignatures_loop ::
  "(string \<rightharpoonup> nat) \<Rightarrow> (string list \<times> string list) list \<Rightarrow> int option option" where
  "compareSignatures_loop typesIndexMap [] = None"
| "compareSignatures_loop typesIndexMap ((param1, param2) # ps) =
     (let c = compareParams param1 param2 typesIndexMap in
      if c \<noteq> Some 0 then Some c else compareSignatures_loop typesIndexMap ps)"

definition compareSignatures :: "signature \<Rightarrow> signature \<Rightarrow> (string \<rightharpoonup> nat) \<Rightarrow> int option" where
  "compareSignatures signature1 signature2 typesIndexMap =
     (let len = min (length (params signature1)) (length (params signature2));
          rest = (of_bool (restParam signature1) :: int) - of_bool (restParam signature2) in
      if rest \<noteq> 0 then Some rest
      else (case compareSignatures_loop typesIndexMap
                   (take len (zip (params signature1) (params signature2))) of
              Some c \<Rightarrow> c
            | None \<Rightarrow> Some (int (length (params signature1)) - int (length (params signature2)))))"

text \<open>\<^verbatim>\<open>Array.prototype.sort\<close> with a comparator, as a stable insertion sort: an element
  moves behind another only when the comparator gives a positive number for the pair
  (a \<^verbatim>\<open>NaN\<close> counts as 0). For a comparator that is a total preorder, as
  \<^verbatim>\<open>compareSignatures\<close> is on known type names, this is the result of every stable
  sort.\<close>

fun insort_by :: "('a \<Rightarrow> 'a \<Rightarrow> int option) \<Rightarrow> 'a \<Rightarrow> 'a list \<Rightarrow> 'a list" where
  "insort_by cmp x [] = [x]"
| "insort_by cmp x (y # ys) =
     (if (case cmp x y of Some v \<Rightarrow> v > 0 | None \<Rightarrow> False)
      then y # insort_by cmp x ys
      else x # y # ys)"

definition sort_by :: "('a \<Rightarrow> 'a \<Rightarrow> int option) \<Rightarrow> 'a list \<Rightarrow> 'a list" where
  "sort_by cmp xs = foldr (insort_by cmp) xs []"

section \<open>Conversions\<close>

text \<open>The inner \<^verbatim>\<open>forEach\<close> of \<^verbatim>\<open>getConversions\<close> for one param: the object
  \<^verbatim>\<open>conversions\<close> keyed by \<^verbatim>\<open>from\<close> is the list of its values in insertion order,
  which is the order of \<^verbatim>\<open>Object.keys\<close> for names that are not array indices.\<close>

definition getConversions_param :: "typed_registry \<Rightarrow> string list \<Rightarrow> conversion list" where
  "getConversions_param typed param =
     foldl (\<lambda>cs c.
              if conv_from c \<notin> set param \<and> conv_to c \<in> set param \<and>
                 conv_from c \<notin> set (map conv_from cs)
              then cs @ [c] else cs)
           [] (conversions typed)"

definition getConversions :: "typed_registry \<Rightarrow> string list list \<Rightarrow> conversion list list option" where
  "getConversions typed ps =
     (let paramConversions = map (getConversions_param typed) ps;
          hasConvertableParams = list_ex (\<lambda>param. length param > 0) paramConversions in
      if hasConvertableParams then Some paramConversions else None)"

text \<open>\<^verbatim>\<open>addConvertableParams\<close>; \<^verbatim>\<open>conversions[i]\<close> is read through \<open>zip\<close>, the two
  lists having the same length at the only call.\<close>

definition addConvertableParams :: "signature \<Rightarrow> conversion list list \<Rightarrow> signature" where
  "addConvertableParams sg convs =
     \<lparr>params = map (\<lambda>(param, cs). param @ map conv_from cs) (zip (params sg) convs),
      restParam = restParam sg\<rparr>"

text \<open>The closure \<^verbatim>\<open>convertArg\<close> over the parallel arrays \<^verbatim>\<open>tests\<close> and
  \<^verbatim>\<open>converts\<close>.\<close>

fun convertArg :: "((val \<Rightarrow> bool) \<times> (val \<Rightarrow> val)) list \<Rightarrow> val \<Rightarrow> val" where
  "convertArg [] arg = arg"
| "convertArg ((t, c) # tcs) arg = (if t arg then c arg else convertArg tcs arg)"

text \<open>Which \<^verbatim>\<open>converts[i]\<close> the loop of \<^verbatim>\<open>convertArg\<close> calls on an argument: \<open>Some i\<close>
  when it returns \<^verbatim>\<open>converts[i](arg)\<close>, \<open>None\<close> when it calls none and returns the
  argument.\<close>

fun convertArg_invoked :: "nat \<Rightarrow> ((val \<Rightarrow> bool) \<times> (val \<Rightarrow> val)) list \<Rightarrow> val \<Rightarrow> nat option" where
  "convertArg_invoked i [] arg = None"
| "convertArg_invoked i ((t, c) # tcs) arg =
     (if t arg then Some i else convertArg_invoked (Suc i) tcs arg)"

definition compileArgConversion ::
  "typed_registry \<Rightarrow> conversion list \<Rightarrow> error + ((val \<Rightarrow> bool) \<times> (val \<Rightarrow> val)) list" where
  "compileArgConversion typed convs =
     (case map_throwing (\<lambda>c. findTest typed (conv_from c)) convs of
        Inl e \<Rightarrow> Inl e
      | Inr tests \<Rightarrow> Inr (zip tests (map convert convs)))"

text \<open>What the JavaScript engine throws on calling \<^verbatim>\<open>undefined\<close> or on \<^verbatim>\<open>.map\<close> of
  a value that is no array; the text of its message is not modelled.\<close>

definition engine_TypeError :: error where
  "engine_TypeError = TypeError ''is not a function'' NoData"

text \<open>The closure \<^verbatim>\<open>convertArgs\<close> of \<^verbatim>\<open>compileArgsConversion\<close>.\<close>

definition convertArgs ::
  "fn \<Rightarrow> ((val \<Rightarrow> bool) \<times> (val \<Rightarrow> val)) list list \<Rightarrow> bool \<Rightarrow> fn" where
  "convertArgs f compiledConversions rp arguments =
     (if rp
      then (if arguments = [] then Inl engine_TypeError
            else (let lst = length arguments - 1 in
                  if lst > length compiledConversions then Inl engine_TypeError
                  else (case arguments ! lst of
                          VArray xs \<Rightarrow>
                            if lst < length compiledConversions
                            then f (map (\<lambda>i. convertArg (compiledConversions ! i) (arguments ! i))
                                        [0 ..< lst]
                                    @ [VArray (map (convertArg (compiledConversions ! lst)) xs)])
                            else Inl engine_TypeError
                        | _ \<Rightarrow> Inl engine_TypeError)))
      else (if length arguments > length compiledConversions then Inl engine_TypeError
            else f (map (\<lambda>i. convertArg (compiledConversions ! i) (arguments ! i))
                        [0 ..< length arguments])))"

definition compileArgsConversion ::
  "typed_registry \<Rightarrow> fn \<Rightarrow> conversion list list \<Rightarrow> bool \<Rightarrow> error + fn" where
  "compileArgsConversion typed f convs rp =
     (case map_throwing (compileArgConversion typed) convs of
        Inl e \<Rightarrow> Inl e
      | Inr compiledConversions \<Rightarrow> Inr (convertArgs f compiledConversions rp))"

section \<open>The error of a call that matches no signature\<close>

text \<open>The entries of the array \<^verbatim>\<open>defs\<close> of \<^verbatim>\<open>createTypedFunction\<close>.\<close>

record typed_def =
  signature :: signature
  restParam :: bool
  conversion :: bool
  preprocess :: "(val list \<Rightarrow> val list) option"
  test :: "val list \<Rightarrow> bool"
  fn :: fn

text \<open>\<^verbatim>\<open>getExpectedParam\<close>. A signature with the rest flag has at least one param; for
  one without, where the source reads \<^verbatim>\<open>params[-1]\<close>, no type is expected here.\<close>

definition getExpectedParam :: "signature \<Rightarrow> nat \<Rightarrow> string list" where
  "getExpectedParam sg index =
     (if index < length (params sg) then params sg ! index
      else if signature.restParam sg
           then (case param_at (params sg) (length (params sg) - 1) of
                   Some param \<Rightarrow> param
                 | None \<Rightarrow> [])
           else [])"

definition isCorrectType :: "string list \<Rightarrow> string \<Rightarrow> bool" where
  "isCorrectType expectedParam actualType \<longleftrightarrow>
     actualType \<in> set expectedParam \<or> ''any'' \<in> set expectedParam"

text \<open>\<^verbatim>\<open>uniq\<close>: the keys of an object in insertion order, that is the first occurrences
  (for names that are not array indices).\<close>

fun uniq :: "string list \<Rightarrow> string list" where
  "uniq [] = []"
| "uniq (x # xs) = x # filter (\<lambda>y. y \<noteq> x) (uniq xs)"

definition flatMap :: "'a list \<Rightarrow> ('a \<Rightarrow> 'b list) \<Rightarrow> 'b list" where
  "flatMap arr callback = concat (map callback arr)"

definition mergeExpectedParams :: "typed_def list \<Rightarrow> nat \<Rightarrow> string list" where
  "mergeExpectedParams defs index =
     (let ps = uniq (flatMap defs (\<lambda>d. getExpectedParam (signature d) index)) in
      if ''any'' \<in> set ps then [''any''] else ps)"

text \<open>The types of the arguments as \<^verbatim>\<open>createError\<close> finds them, reading
  \<^verbatim>\<open>typed.types\<close> at the time of the call.\<close>

definition actualTypes_of :: "typed_registry \<Rightarrow> val list \<Rightarrow> string list" where
  "actualTypes_of typed args =
     map (\<lambda>arg. case find (\<lambda>entry. type_entry.test entry arg) (types typed) of
                  Some entry \<Rightarrow> name entry
                | None \<Rightarrow> ''unknown'')
         args"

text \<open>The first loop of \<^verbatim>\<open>createError\<close> from \<open>index\<close> on, over the actual types not yet
  visited: \<open>Inl\<close> is the error it returns, \<open>Inr\<close> the \<^verbatim>\<open>matchingDefs\<close> it ends
  with.\<close>

fun createError_wrongType ::
  "string \<Rightarrow> string list \<Rightarrow> nat \<Rightarrow> typed_def list \<Rightarrow> error + typed_def list" where
  "createError_wrongType nm [] index matchingDefs = Inr matchingDefs"
| "createError_wrongType nm (actualType # actualTypes) index matchingDefs =
     (let nextMatchingDefs =
            filter (\<lambda>d. isCorrectType (getExpectedParam (signature d) index) actualType)
                   matchingDefs in
      if length nextMatchingDefs = 0
      then (let expected = mergeExpectedParams matchingDefs index in
            if length expected > 0
            then Inl (TypeError
                       (''Unexpected type of argument in function '' @ nm @
                        '' (expected: '' @ join '' or '' expected @
                        '', actual: '' @ actualType @ '', index: '' @ string_of_nat index @ '')'')
                       (WrongType nm index actualType expected))
            else createError_wrongType nm actualTypes (Suc index) matchingDefs)
      else createError_wrongType nm actualTypes (Suc index) nextMatchingDefs)"

definition createError :: "typed_registry \<Rightarrow> string \<Rightarrow> val list \<Rightarrow> typed_def list \<Rightarrow> error" where
  "createError typed nm args defs =
     (let nm' = (if nm = [] then ''unnamed'' else nm);
          actualTypes = actualTypes_of typed args in
      case createError_wrongType nm' actualTypes 0 defs of
        Inl err \<Rightarrow> err
      | Inr matchingDefs \<Rightarrow>
          (let index = length actualTypes;
               lengths = map (\<lambda>d. if signature.restParam (signature d) then Infinity
                                   else Num (length (params (signature d))))
                             matchingDefs in
           if extnum_less (Num (length actualTypes)) (Math_min lengths)
           then (let expected = mergeExpectedParams matchingDefs index in
                 TypeError
                   (''Too few arguments in function '' @ nm' @
                    '' (expected: '' @ join '' or '' expected @
                    '', index: '' @ string_of_nat (length actualTypes) @ '')'')
                   (TooFewArgs nm' (length actualTypes) expected))
           else (let maxLength = Math_max lengths in
                 if extnum_less maxLength (Num (length actualTypes))
                 then TypeError
                        (''Too many arguments in function '' @ nm' @
                         '' (expected: '' @ string_of_extnum maxLength @
                         '', actual: '' @ string_of_nat (length actualTypes) @ '')'')
                        (TooManyArgs nm' (length actualTypes) maxLength)
                 else TypeError
                        (''Arguments of type '' @ quot @ join '', '' actualTypes @ quot @
                         '' do not match any of the defined signatures of function '' @ nm' @ ''.'')
                        (Mismatch actualTypes))))"

section \<open>Creating and calling a typed function\<close>

text \<open>\<^verbatim>\<open>createRestParamPreProcess\<close>; a signature with a rest param has at least one
  param, so the offset is a natural number.\<close>

definition createRestParamPreProcess :: "signature \<Rightarrow> val list \<Rightarrow> val list" where
  "createRestParamPreProcess sg =
     (let offset = length (params sg) - 1 in
      (\<lambda>args. take offset args @ [VArray (drop offset args)]))"

text \<open>The first loop of \<^verbatim>\<open>createTypedFunction\<close>, over the properties of the object
  \<^verbatim>\<open>signatures\<close> in their enumeration order.\<close>

fun parse_signatures :: "typed_registry \<Rightarrow> (string \<times> fn) list \<Rightarrow> error + typed_def list" where
  "parse_signatures typed [] = Inr []"
| "parse_signatures typed ((sig, f) # sigs) =
     (case parseParams sig of
        Inl e \<Rightarrow> Inl e
      | Inr parsed \<Rightarrow>
          (case filterIgnoredTypes typed parsed of
             None \<Rightarrow> parse_signatures typed sigs
           | Some parsedSignature \<Rightarrow>
               (case compileParams typed parsedSignature of
                  Inl e \<Rightarrow> Inl e
                | Inr t \<Rightarrow>
                    (case parse_signatures typed sigs of
                       Inl e \<Rightarrow> Inl e
                     | Inr defs \<Rightarrow>
                         Inr (\<lparr>signature = parsedSignature,
                               restParam = signature.restParam parsedSignature,
                               conversion = False,
                               preprocess = (if signature.restParam parsedSignature
                                             then Some (createRestParamPreProcess parsedSignature)
                                             else None),
                               test = t,
                               fn = f\<rparr> # defs)))))"

text \<open>The second loop, from iteration \<open>i\<close> on over the defs not yet visited: the defs it
  pushes, in order, each paired with the index \<open>i\<close> of the iteration that pushed it (the
  index of the def it was derived from).\<close>

fun conversion_defs ::
  "typed_registry \<Rightarrow> nat \<Rightarrow> typed_def list \<Rightarrow> error + (nat \<times> typed_def) list" where
  "conversion_defs typed i [] = Inr []"
| "conversion_defs typed i (d # ds) =
     (case getConversions typed (params (signature d)) of
        None \<Rightarrow> conversion_defs typed (Suc i) ds
      | Some convs \<Rightarrow>
          (let sg = addConvertableParams (signature d) convs in
           case compileParams typed sg of
             Inl e \<Rightarrow> Inl e
           | Inr t \<Rightarrow>
               (case compileArgsConversion typed (fn d) convs (restParam d) of
                  Inl e \<Rightarrow> Inl e
                | Inr f \<Rightarrow>
                    (case conversion_defs typed (Suc i) ds of
                       Inl e \<Rightarrow> Inl e
                     | Inr pushed \<Rightarrow>
                         Inr ((i, \<lparr>signature = sg,
                                   restParam = restParam d,
                                   conversion = True,
                                   preprocess = preprocess d,
                                   test = t,
                                   fn = f\<rparr>) # pushed)))))"

text \<open>\<^verbatim>\<open>defs.sort(...)\<close> with the comparator of the source.\<close>

definition sort_defs :: "typed_registry \<Rightarrow> typed_def list \<Rightarrow> typed_def list" where
  "sort_defs typed ds =
     (let typesIndexMap = createTypesIndexMap (types typed) in
      sort_by (\<lambda>a b. compareSignatures (signature a) (signature b) typesIndexMap) ds)"

text \<open>The typed function: its name, its map \<^verbatim>\<open>signatures\<close>, and the variables its two
  closures \<^verbatim>\<open>fn\<close> and \<^verbatim>\<open>generic\<close> captured. The lists \<open>tests0\<close>, \<open>tests1\<close>, \<open>fns\<close>
  and \<open>lens\<close> hold \<^verbatim>\<open>test00\<close> to \<^verbatim>\<open>test50\<close>, \<^verbatim>\<open>test01\<close> to \<^verbatim>\<open>test51\<close>,
  \<^verbatim>\<open>fn0\<close> to \<^verbatim>\<open>fn5\<close> and \<^verbatim>\<open>len0\<close> to \<^verbatim>\<open>len5\<close>.\<close>

record typed_function =
  fn_name :: string
  signatures :: "string \<rightharpoonup> fn"
  defs :: "typed_def list"
  tests0 :: "(val \<Rightarrow> bool) list"
  tests1 :: "(val \<Rightarrow> bool) list"
  fns :: "fn list"
  lens :: "int list"
  iStart :: nat
  iEnd :: nat

text \<open>\<^verbatim>\<open>ok0\<close> to \<^verbatim>\<open>ok5\<close>.\<close>

definition ok_fast :: "typed_def list \<Rightarrow> nat \<Rightarrow> bool" where
  "ok_fast ds k \<longleftrightarrow>
     k < length ds \<and> length (params (signature (ds ! k))) \<le> 2 \<and>
     \<not> signature.restParam (signature (ds ! k))"

definition createTypedFunction ::
  "typed_registry \<Rightarrow> string \<Rightarrow> (string \<times> fn) list \<Rightarrow> error + typed_function" where
  "createTypedFunction typed nm sigs =
     (if length sigs = 0 then Inl (SyntaxError ''No signatures provided'')
      else
       (case parse_signatures typed sigs of
          Inl e \<Rightarrow> Inl e
        | Inr parsed_defs \<Rightarrow>
           (let sorted_defs = sort_defs typed parsed_defs in
            case conversion_defs typed 0 sorted_defs of
              Inl e \<Rightarrow> Inl e
            | Inr pushed \<Rightarrow>
               (let ds = sorted_defs @ map snd pushed;
                    allOk = list_all (ok_fast ds) [0 ..< 6] in
                case map_throwing
                       (\<lambda>k. if ok_fast ds k
                            then compileParam typed (param_at (params (signature (ds ! k))) 0)
                            else Inr notOk) [0 ..< 6] of
                  Inl e \<Rightarrow> Inl e
                | Inr t0 \<Rightarrow>
                   (case map_throwing
                           (\<lambda>k. if ok_fast ds k
                                then compileParam typed (param_at (params (signature (ds ! k))) 1)
                                else Inr notOk) [0 ..< 6] of
                      Inl e \<Rightarrow> Inl e
                    | Inr t1 \<Rightarrow>
                        Inr \<lparr>fn_name = nm,
                             signatures =
                               fold (\<lambda>d m. if \<not> conversion d
                                            then m(stringifyParams (signature d) \<mapsto> fn d)
                                            else m)
                                    ds Map.empty,
                             defs = ds,
                             tests0 = t0,
                             tests1 = t1,
                             fns = map (\<lambda>k. if ok_fast ds k then fn (ds ! k) else undef) [0 ..< 6],
                             lens = map (\<lambda>k. if ok_fast ds k
                                              then int (length (params (signature (ds ! k))))
                                              else - 1) [0 ..< 6],
                             iStart = (if allOk then 6 else 0),
                             iEnd = length ds\<rparr>)))))"

text \<open>One line of the closure \<^verbatim>\<open>fn\<close>:
  \<^verbatim>\<open>arguments.length === len_k && test_k0(arg0) && test_k1(arg1)\<close>.\<close>

definition fast_hit :: "typed_function \<Rightarrow> nat \<Rightarrow> val list \<Rightarrow> bool" where
  "fast_hit tf k args \<longleftrightarrow>
     int (length args) = lens tf ! k \<and> (tests0 tf ! k) (arg_at args 0) \<and>
     (tests1 tf ! k) (arg_at args 1)"

text \<open>The loop of the closure \<^verbatim>\<open>generic\<close> over the defs from index \<open>i\<close> on: the index
  of the first def whose test accepts the arguments.\<close>

fun generic_loop :: "typed_def list \<Rightarrow> nat \<Rightarrow> val list \<Rightarrow> nat option" where
  "generic_loop [] i args = None"
| "generic_loop (d # ds) i args = (if test d args then Some i else generic_loop ds (Suc i) args)"

text \<open>Where a call ends: in line \<open>k\<close> of the closure \<^verbatim>\<open>fn\<close>, at def \<open>i\<close> of the loop of
  \<^verbatim>\<open>generic\<close>, or in the \<^verbatim>\<open>throw\<close> after the loop.\<close>

datatype dispatch = Fast nat | Generic nat | NoMatch

definition fn_dispatch :: "typed_function \<Rightarrow> val list \<Rightarrow> dispatch" where
  "fn_dispatch tf args =
     (if fast_hit tf 0 args then Fast 0
      else if fast_hit tf 1 args then Fast 1
      else if fast_hit tf 2 args then Fast 2
      else if fast_hit tf 3 args then Fast 3
      else if fast_hit tf 4 args then Fast 4
      else if fast_hit tf 5 args then Fast 5
      else (case generic_loop (drop (iStart tf) (take (iEnd tf) (defs tf))) (iStart tf) args of
              Some i \<Rightarrow> Generic i
            | None \<Rightarrow> NoMatch))"

text \<open>A call of the typed function while the registry is \<open>typed\<close>.\<close>

definition typed_call :: "typed_registry \<Rightarrow> typed_function \<Rightarrow> val list \<Rightarrow> error + val" where
  "typed_call typed tf args =
     (case fn_dispatch tf args of
        Fast k \<Rightarrow> (fns tf ! k) args
      | Generic i \<Rightarrow>
          (let d = defs tf ! i in
           if restParam d
           then (case preprocess d of
                   Some pre \<Rightarrow> fn d (pre args)
                 | None \<Rightarrow> Inl engine_TypeError)
           else fn d args)
      | NoMatch \<Rightarrow> Inl (createError typed (fn_name tf) args (defs tf)))"

section \<open>Finding a signature\<close>

text \<open>The first argument of \<^verbatim>\<open>find\<close>: a typed function, or a function without the
  property \<^verbatim>\<open>signatures\<close>. The second: a string, an array of strings, or anything
  else.\<close>

datatype js_function = TypedFunction typed_function | PlainFunction string

datatype signature_arg = SignatureString string | SignatureArray "string list" | SignatureOther

text \<open>The property \<^verbatim>\<open>signatures\<close> is a plain object (\<^verbatim>\<open>fn.signatures = {}\<close>), and
  \<^verbatim>\<open>find\<close> reads it with \<^verbatim>\<open>fn.signatures[str]\<close>, with no test for an own property. The
  read returns the value stored under an own key and, for any other name, what the prototype
  chain of the object holds under that name. So the value read is either the implementation
  stored under a key, or the inherited member of that name.\<close>

datatype property_value = Implementation fn | Inherited string

text \<open>The names under which the prototype chain of the object holds a value that the
  condition \<^verbatim>\<open>if (match)\<close> takes for true. For an object created by \<^verbatim>\<open>{}\<close> these are
  the members of \<^verbatim>\<open>Object.prototype\<close>: the methods of the language standard, its accessor
  \<^verbatim>\<open>__proto__\<close> (which reads as \<^verbatim>\<open>Object.prototype\<close> itself) and its four legacy
  methods. The prototype is an argument of the model of \<^verbatim>\<open>find\<close>, and everything proved
  of \<^verbatim>\<open>find\<close> is proved for every prototype; this covers the one assignment of
  \<^verbatim>\<open>createTypedFunction\<close> that does not create an own property, under a key
  \<^verbatim>\<open>__proto__\<close>, which replaces the prototype by the implementation, so that reading
  \<^verbatim>\<open>__proto__\<close> gives that implementation all the same.\<close>

type_synonym prototype = "string \<Rightarrow> bool"

definition Object_prototype :: prototype where
  "Object_prototype nm \<longleftrightarrow>
     nm \<in> set [''constructor'', ''hasOwnProperty'', ''isPrototypeOf'', ''propertyIsEnumerable'',
               ''toLocaleString'', ''toString'', ''valueOf'', ''__proto__'',
               ''__defineGetter__'', ''__defineSetter__'',
               ''__lookupGetter__'', ''__lookupSetter__'']"

text \<open>\<^verbatim>\<open>fn.signatures[str]\<close>, \<open>None\<close> when the read gives \<^verbatim>\<open>undefined\<close>.\<close>

definition signatures_get :: "prototype \<Rightarrow> typed_function \<Rightarrow> string \<Rightarrow> property_value option" where
  "signatures_get proto tf str =
     (case signatures tf str of
        Some f \<Rightarrow> Some (Implementation f)
      | None \<Rightarrow> if proto str then Some (Inherited str) else None)"

definition find_signature :: "prototype \<Rightarrow> js_function \<Rightarrow> signature_arg \<Rightarrow> error + property_value" where
  "find_signature proto f sig =
     (case f of
        PlainFunction nm \<Rightarrow> Inl (TypeError ''Function is no typed-function'' NoData)
      | TypedFunction tf \<Rightarrow>
          (case (case sig of
                   SignatureString s \<Rightarrow> Some (map trim (split CHR '','' s))
                 | SignatureArray a \<Rightarrow> Some a
                 | SignatureOther \<Rightarrow> None) of
             None \<Rightarrow> Inl (TypeError ''String array or a comma separated string expected'' NoData)
           | Some arr \<Rightarrow>
               (let str = join '','' arr in
                case signatures_get proto tf str of
                  Some match \<Rightarrow> Inr match
                | None \<Rightarrow>
                    Inl (TypeError
                          (''Signature not found (signature: '' @
                           (if fn_name tf = [] then ''unnamed'' else fn_name tf) @
                           ''('' @ join '', '' arr @ ''))'')
                          NoData))))"

section \<open>Notions used in the statements\<close>

text \<open>A single linear scan over the sorted, conversion-expanded def list: the index of the
  first def of \<^verbatim>\<open>defs\<close> whose test accepts the arguments.\<close>

definition sorted_linear_scan :: "typed_function \<Rightarrow> val list \<Rightarrow> nat option" where
  "sorted_linear_scan tf args = generic_loop (defs tf) 0 args"

text \<open>The def that a dispatch runs.\<close>

fun dispatched_def :: "dispatch \<Rightarrow> nat option" where
  "dispatched_def (Fast k) = Some k"
| "dispatched_def (Generic i) = Some i"
| "dispatched_def NoMatch = None"

text \<open>Running a def on the arguments of a call, as the loop of \<^verbatim>\<open>generic\<close> does: through
  \<^verbatim>\<open>preprocess\<close> when the def has a rest param.\<close>

definition invoke_def :: "typed_def \<Rightarrow> val list \<Rightarrow> error + val" where
  "invoke_def d args =
     (if restParam d
      then (case preprocess d of
              Some pre \<Rightarrow> fn d (pre args)
            | None \<Rightarrow> Inl engine_TypeError)
      else fn d args)"

text \<open>None of the first six defs has a rest param.\<close>

definition no_rest_in_fast_range :: "typed_function \<Rightarrow> bool" where
  "no_rest_in_fast_range tf \<longleftrightarrow>
     list_all (\<lambda>d. \<not> signature.restParam (signature d)) (take 6 (defs tf))"

text \<open>The signatures of a signatures map that survive parsing and ignored-type filtering,
  each with its implementation, in the enumeration order of the map.\<close>

definition surviving :: "typed_registry \<Rightarrow> (string \<times> fn) list \<Rightarrow> (signature \<times> fn) list" where
  "surviving typed sigs =
     List.map_filter
       (\<lambda>(sig, f). case parseParams sig of
                      Inl e \<Rightarrow> None
                    | Inr parsed \<Rightarrow>
                        (case filterIgnoredTypes typed parsed of
                           None \<Rightarrow> None
                         | Some sg \<Rightarrow> Some (sg, f)))
       sigs"

text \<open>A def whose test is the one compiled from its signature and whose rest flag is that of
  its signature, as both loops of \<^verbatim>\<open>createTypedFunction\<close> build them.\<close>

definition compiled_def :: "typed_registry \<Rightarrow> typed_def \<Rightarrow> bool" where
  "compiled_def typed d \<longleftrightarrow>
     compileParams typed (signature d) = Inr (test d) \<and>
     restParam d = signature.restParam (signature d)"


text \<open>A type name as the parser leaves it: not empty, no white space at either end, no
  comma. A signature as parsing and filtering leave it: no param without a type, every type
  name of this kind.\<close>

definition clean_name :: "string \<Rightarrow> bool" where
  "clean_name ty \<longleftrightarrow>
     ty \<noteq> [] \<and> \<not> is_space (hd ty) \<and> \<not> is_space (last ty) \<and> CHR '','' \<notin> set ty"

definition clean_signature :: "signature \<Rightarrow> bool" where
  "clean_signature sg \<longleftrightarrow>
     list_all (\<lambda>param. param \<noteq> [] \<and> list_all clean_name param) (params sg)"

text \<open>Signatures as the parser and both loops of \<^verbatim>\<open>createTypedFunction\<close> produce them: no
  param without a type, and at least one param where the rest flag is set.\<close>

definition proper_signature :: "signature \<Rightarrow> bool" where
  "proper_signature sg \<longleftrightarrow>
     list_all (\<lambda>param. param \<noteq> []) (params sg) \<and>
     (if signature.restParam sg then params sg \<noteq> [] else True)"

text \<open>The defs still viable before argument position \<open>i\<close>: those whose expected params at all
  positions below \<open>i\<close> admit the actual types there.\<close>

fun viable :: "typed_def list \<Rightarrow> string list \<Rightarrow> nat \<Rightarrow> typed_def list" where
  "viable ds actualTypes 0 = ds"
| "viable ds actualTypes (Suc i) =
     filter (\<lambda>d. isCorrectType (getExpectedParam (signature d) i) (actualTypes ! i))
            (viable ds actualTypes i)"

text \<open>The registries that the module can be in: the one that \<^verbatim>\<open>create()\<close> builds, with any
  names pushed on \<^verbatim>\<open>typed.ignore\<close>, and those that \<^verbatim>\<open>typed.addType\<close> and
  \<^verbatim>\<open>typed.addConversion\<close> make of them.\<close>

inductive reachable :: "typed_registry \<Rightarrow> bool" where
  initial: "reachable create"
| ignored: "reachable typed \<Longrightarrow> reachable (typed\<lparr>ignore := ign\<rparr>)"
| added_type: "reachable typed \<Longrightarrow> reachable (addType typed ty)"
| added_conversion: "reachable typed \<Longrightarrow> reachable (addConversion typed c)"

section \<open>Functions, types and conversions of the examples\<close>

text \<open>An implementation that returns its own tag followed by the arguments it received, so
  that a result shows which implementation ran and on what.\<close>

definition tagged :: "string \<Rightarrow> fn" where
  "tagged tag args = Inr (VArray (VString tag # args))"

text \<open>The conversion of scenario S3, \<^verbatim>\<open>b => b ? 1 : 0\<close> from boolean to number.\<close>

definition boolean_to_number :: conversion where
  "boolean_to_number =
     \<lparr>conv_from = ''boolean'', conv_to = ''number'',
      convert = (\<lambda>v. case v of VBoolean b \<Rightarrow> VNumber (if b then 1 else 0) | _ \<Rightarrow> v)\<rparr>"

text \<open>A conversion from dates to strings.\<close>

definition date_to_string :: conversion where
  "date_to_string =
     \<lparr>conv_from = ''Date'', conv_to = ''string'',
      convert = (\<lambda>v. case v of VDate d \<Rightarrow> VString ''date'' | _ \<Rightarrow> v)\<rparr>"

text \<open>A conversion from arrays to objects; every array already passes the test of
  \<^verbatim>\<open>Object\<close>.\<close>

definition array_to_object :: conversion where
  "array_to_object =
     \<lparr>conv_from = ''Array'', conv_to = ''Object'', convert = (\<lambda>v. VObject 0)\<rparr>"

text \<open>A user type whose test accepts the plain objects.\<close>

definition plain_object_type :: type_entry where
  "plain_object_type =
     \<lparr>name = ''Plain'', test = (\<lambda>v. case v of VObject obj \<Rightarrow> True | _ \<Rightarrow> False)\<rparr>"

section \<open>Facts about the compilation\<close>

lemma map_throwing_length: "map_throwing f xs = Inr ys \<Longrightarrow> length ys = length xs"
  by (induction xs arbitrary: ys) (auto split: sum.splits)

lemma map_throwing_nth:
  "map_throwing f xs = Inr ys \<Longrightarrow> i < length xs \<Longrightarrow> f (xs ! i) = Inr (ys ! i)"
proof (induction xs arbitrary: ys i)
  case Nil
  then show ?case by simp
next
  case (Cons x xs)
  then show ?case by (cases i) (auto split: sum.splits)
qed

text \<open>What a successful \<^verbatim>\<open>createTypedFunction\<close> has computed.\<close>

lemma createTypedFunction_InrE:
  assumes "createTypedFunction typed nm sigs = Inr tf"
  obtains parsed pushed where
    "sigs \<noteq> []"
    "parse_signatures typed sigs = Inr parsed"
    "conversion_defs typed 0 (sort_defs typed parsed) = Inr pushed"
    "defs tf = sort_defs typed parsed @ map snd pushed"
    "map_throwing (\<lambda>k. if ok_fast (defs tf) k
                        then compileParam typed (param_at (params (signature (defs tf ! k))) 0)
                        else Inr notOk) [0 ..< 6] = Inr (tests0 tf)"
    "map_throwing (\<lambda>k. if ok_fast (defs tf) k
                        then compileParam typed (param_at (params (signature (defs tf ! k))) 1)
                        else Inr notOk) [0 ..< 6] = Inr (tests1 tf)"
    "fns tf = map (\<lambda>k. if ok_fast (defs tf) k then fn (defs tf ! k) else undef) [0 ..< 6]"
    "lens tf = map (\<lambda>k. if ok_fast (defs tf) k
                         then int (length (params (signature (defs tf ! k)))) else - 1) [0 ..< 6]"
    "iStart tf = (if list_all (ok_fast (defs tf)) [0 ..< 6] then 6 else 0)"
    "iEnd tf = length (defs tf)"
    "fn_name tf = nm"
    "signatures tf = fold (\<lambda>d m. if \<not> conversion d
                                   then m(stringifyParams (signature d) \<mapsto> fn d) else m)
                          (defs tf) Map.empty"
proof -
  from assms have ne: "sigs \<noteq> []"
    by (auto simp: createTypedFunction_def split: if_splits)
  obtain parsed where p: "parse_signatures typed sigs = Inr parsed"
    using assms ne by (cases "parse_signatures typed sigs") (auto simp: createTypedFunction_def)
  obtain pushed where q: "conversion_defs typed 0 (sort_defs typed parsed) = Inr pushed"
    using assms ne p
    by (cases "conversion_defs typed 0 (sort_defs typed parsed)")
       (auto simp: createTypedFunction_def Let_def)
  define ds where "ds = sort_defs typed parsed @ map snd pushed"
  obtain t0 where t0:
    "map_throwing (\<lambda>k. if ok_fast ds k
                        then compileParam typed (param_at (params (signature (ds ! k))) 0)
                        else Inr notOk) [0 ..< 6] = Inr t0"
    using assms ne p q unfolding ds_def createTypedFunction_def Let_def
    by (simp split: sum.splits)
  obtain t1 where t1:
    "map_throwing (\<lambda>k. if ok_fast ds k
                        then compileParam typed (param_at (params (signature (ds ! k))) 1)
                        else Inr notOk) [0 ..< 6] = Inr t1"
    using assms ne p q t0 unfolding ds_def createTypedFunction_def Let_def
    by (simp split: sum.splits)
  have tf: "tf = \<lparr>fn_name = nm,
                  signatures = fold (\<lambda>d m. if \<not> conversion d
                                   then m(stringifyParams (signature d) \<mapsto> fn d) else m)
                          ds Map.empty,
                  defs = ds, tests0 = t0, tests1 = t1,
                  fns = map (\<lambda>k. if ok_fast ds k then fn (ds ! k) else undef) [0 ..< 6],
                  lens = map (\<lambda>k. if ok_fast ds k
                         then int (length (params (signature (ds ! k)))) else - 1) [0 ..< 6],
                  iStart = (if list_all (ok_fast ds) [0 ..< 6] then 6 else 0),
                  iEnd = length ds\<rparr>"
    using assms ne p q t0 t1 unfolding ds_def createTypedFunction_def Let_def
    by simp
  have d: "defs tf = ds" by (simp add: tf)
  show thesis
  proof (rule that[OF ne p q], unfold d)
    show "ds = sort_defs typed parsed @ map snd pushed" by (rule ds_def)
    show "map_throwing (\<lambda>k. if ok_fast ds k
                        then compileParam typed (param_at (params (signature (ds ! k))) 0)
                        else Inr notOk) [0 ..< 6] = Inr (tests0 tf)"
      using t0 by (simp only: tf typed_function.simps)
    show "map_throwing (\<lambda>k. if ok_fast ds k
                        then compileParam typed (param_at (params (signature (ds ! k))) 1)
                        else Inr notOk) [0 ..< 6] = Inr (tests1 tf)"
      using t1 by (simp only: tf typed_function.simps)
  qed (simp_all add: tf)
qed

lemma parse_signatures_surviving:
  "parse_signatures typed sigs = Inr ds \<Longrightarrow>
     map (\<lambda>d. (signature d, fn d)) ds = surviving typed sigs"
proof (induction sigs arbitrary: ds)
  case Nil
  then show ?case by (simp add: surviving_def map_filter_simps)
next
  case (Cons a sigs)
  obtain sig f where a: "a = (sig, f)" by (cases a)
  from Cons.prems show ?case
    using Cons.IH
    by (auto simp: a surviving_def map_filter_simps split: sum.splits option.splits)
qed

lemma parse_signatures_compiled:
  "parse_signatures typed sigs = Inr ds \<Longrightarrow> d \<in> set ds \<Longrightarrow>
     compiled_def typed d \<and> \<not> conversion d \<and>
     preprocess d = (if restParam d then Some (createRestParamPreProcess (signature d)) else None)"
proof (induction sigs arbitrary: ds)
  case Nil
  then show ?case by simp
next
  case (Cons a sigs)
  obtain sig f where a: "a = (sig, f)" by (cases a)
  from Cons.prems show ?case
    using Cons.IH
    by (auto simp: a compiled_def_def split: sum.splits option.splits)
qed

lemma mset_insort_by: "mset (insort_by cmp x xs) = add_mset x (mset xs)"
  by (induction xs) auto

lemma mset_sort_by: "mset (sort_by cmp xs) = mset xs"
  by (induction xs) (auto simp: sort_by_def mset_insort_by)

lemma mset_sort_defs: "mset (sort_defs typed ds) = mset ds"
  by (simp add: sort_defs_def mset_sort_by)

lemma set_sort_defs: "set (sort_defs typed ds) = set ds"
  using mset_sort_defs by (metis set_mset_mset)

lemma length_sort_defs: "length (sort_defs typed ds) = length ds"
  using mset_sort_defs by (metis size_mset)

lemma length_addConvertableParams:
  "getConversions typed (params sg) = Some convs \<Longrightarrow>
     length (params (addConvertableParams sg convs)) = length (params sg)"
  by (auto simp: addConvertableParams_def getConversions_def Let_def split: if_splits)

text \<open>Every def pushed by the second loop comes from a def of the sorted block, has as many
  params and the same rest flag, and carries the test compiled from its own signature.\<close>

lemma conversion_defs_pushed:
  "conversion_defs typed i ds = Inr pushed \<Longrightarrow> (j, d') \<in> set pushed \<Longrightarrow>
     (\<And>d. d \<in> set ds \<Longrightarrow> compiled_def typed d) \<Longrightarrow>
     i \<le> j \<and> j < i + length ds \<and> compiled_def typed d' \<and> conversion d' \<and>
     length (params (signature d')) = length (params (signature (ds ! (j - i)))) \<and>
     signature.restParam (signature d') = signature.restParam (signature (ds ! (j - i))) \<and>
     restParam d' = restParam (ds ! (j - i)) \<and>
     preprocess d' = preprocess (ds ! (j - i))"
proof (induction ds arbitrary: i pushed)
  case Nil
  then show ?case by simp
next
  case (Cons d ds)
  show ?case
  proof (cases "getConversions typed (params (signature d))")
    case None
    with Cons.prems have "conversion_defs typed (Suc i) ds = Inr pushed" by simp
    from Cons.IH[OF this Cons.prems(2)] Cons.prems(3) show ?thesis
      by (auto simp: Suc_diff_le)
  next
    case (Some convs)
    with Cons.prems(1) obtain t f rest where
      t: "compileParams typed (addConvertableParams (signature d) convs) = Inr t" and
      r: "conversion_defs typed (Suc i) ds = Inr rest" and
      p: "pushed = (i, \<lparr>signature = addConvertableParams (signature d) convs,
                         restParam = restParam d, conversion = True,
                         preprocess = preprocess d, test = t, fn = f\<rparr>) # rest"
      by (auto simp: Let_def split: sum.splits)
    from Cons.prems(2) p consider
      "j = i" "d' = \<lparr>signature = addConvertableParams (signature d) convs,
                         restParam = restParam d, conversion = True,
                         preprocess = preprocess d, test = t, fn = f\<rparr>"
      | "(j, d') \<in> set rest" by auto
    then show ?thesis
    proof cases
      case 1
      then show ?thesis
        using t Some length_addConvertableParams[OF Some] Cons.prems(3)[of d]
        by (simp add: compiled_def_def addConvertableParams_def)
    next
      case 2
      from Cons.IH[OF r 2] Cons.prems(3) show ?thesis by (auto simp: Suc_diff_le)
    qed
  qed
qed


section \<open>Facts about the dispatch\<close>

lemma less_6_cases: "k < 6 \<longleftrightarrow> k = 0 \<or> k = 1 \<or> k = 2 \<or> k = 3 \<or> k = 4 \<or> k = (5::nat)"
  by auto

lemma defs_compiled:
  assumes "createTypedFunction typed nm sigs = Inr tf" and "d \<in> set (defs tf)"
  shows "compiled_def typed d"
proof -
  from assms(1) obtain parsed pushed where
    p: "parse_signatures typed sigs = Inr parsed" and
    q: "conversion_defs typed 0 (sort_defs typed parsed) = Inr pushed" and
    d: "defs tf = sort_defs typed parsed @ map snd pushed"
    by (rule createTypedFunction_InrE)
  have s: "compiled_def typed x" if "x \<in> set (sort_defs typed parsed)" for x
    using parse_signatures_compiled[OF p] that by (simp add: set_sort_defs)
  from assms(2) d consider "d \<in> set (sort_defs typed parsed)" | j where "(j, d) \<in> set pushed"
    by auto
  then show ?thesis
  proof cases
    case 1
    then show ?thesis by (rule s)
  next
    case 2
    from conversion_defs_pushed[OF q 2 s] show ?thesis by simp
  qed
qed

lemma compileParams_fast:
  assumes "\<not> signature.restParam sg" and "length (params sg) \<le> 2"
    and "compileParams typed sg = Inr t"
    and "compileParam typed (param_at (params sg) 0) = Inr t0"
    and "compileParam typed (param_at (params sg) 1) = Inr t1"
  shows "t args \<longleftrightarrow> length args = length (params sg) \<and> t0 (arg_at args 0) \<and> t1 (arg_at args 1)"
proof -
  from assms(2) consider "length (params sg) = 0" | "length (params sg) = 1" | "length (params sg) = 2"
    by linarith
  then show ?thesis
  proof cases
    case 1
    with assms show ?thesis by (auto simp: compileParams_def param_at_def ok_def)
  next
    case 2
    with assms show ?thesis by (auto simp: compileParams_def param_at_def ok_def)
  next
    case 3
    with assms show ?thesis by (auto simp: compileParams_def)
  qed
qed

lemma fast_hit_iff:
  assumes c: "createTypedFunction typed nm sigs = Inr tf" and k: "k < 6"
  shows "fast_hit tf k args \<longleftrightarrow> ok_fast (defs tf) k \<and> test (defs tf ! k) args"
proof -
  from c obtain
    t0: "map_throwing (\<lambda>k. if ok_fast (defs tf) k
                        then compileParam typed (param_at (params (signature (defs tf ! k))) 0)
                        else Inr notOk) [0 ..< 6] = Inr (tests0 tf)" and
    t1: "map_throwing (\<lambda>k. if ok_fast (defs tf) k
                        then compileParam typed (param_at (params (signature (defs tf ! k))) 1)
                        else Inr notOk) [0 ..< 6] = Inr (tests1 tf)" and
    l: "lens tf = map (\<lambda>k. if ok_fast (defs tf) k
                         then int (length (params (signature (defs tf ! k)))) else - 1) [0 ..< 6]"
    by (rule createTypedFunction_InrE)
  have lk: "lens tf ! k = (if ok_fast (defs tf) k
                         then int (length (params (signature (defs tf ! k)))) else - 1)"
    using k by (simp add: l del: upt_Suc)
  show ?thesis
  proof (cases "ok_fast (defs tf) k")
    case False
    then show ?thesis by (simp add: fast_hit_def lk)
  next
    case True
    then have in_set: "defs tf ! k \<in> set (defs tf)" by (simp add: ok_fast_def)
    from defs_compiled[OF c in_set]
    have cp: "compileParams typed (signature (defs tf ! k)) = Inr (test (defs tf ! k))"
      by (simp add: compiled_def_def)
    from map_throwing_nth[OF t0, of k] k True
    have c0: "compileParam typed (param_at (params (signature (defs tf ! k))) 0) = Inr (tests0 tf ! k)"
      by (simp del: upt_Suc)
    from map_throwing_nth[OF t1, of k] k True
    have c1: "compileParam typed (param_at (params (signature (defs tf ! k))) 1) = Inr (tests1 tf ! k)"
      by (simp del: upt_Suc)
    from True have "\<not> signature.restParam (signature (defs tf ! k))"
      and "length (params (signature (defs tf ! k))) \<le> 2"
      by (simp_all add: ok_fast_def)
    from compileParams_fast[OF this cp c0 c1, of args] True show ?thesis
      by (auto simp: fast_hit_def lk)
  qed
qed

lemma generic_loop_Some:
  "generic_loop ds i args = Some r \<Longrightarrow>
     i \<le> r \<and> r < i + length ds \<and> test (ds ! (r - i)) args \<and> (\<forall>m < r - i. \<not> test (ds ! m) args)"
proof (induction ds arbitrary: i)
  case Nil
  then show ?case by simp
next
  case (Cons d ds)
  show ?case
  proof (cases "test d args")
    case True
    with Cons.prems show ?thesis by simp
  next
    case False
    with Cons.prems have "generic_loop ds (Suc i) args = Some r" by simp
    from Cons.IH[OF this] False show ?thesis
      by (auto simp: Suc_diff_le less_Suc_eq_0_disj nth_Cons')
  qed
qed

lemma generic_loop_None:
  "generic_loop ds i args = None \<longleftrightarrow> (\<forall>d \<in> set ds. \<not> test d args)"
  by (induction ds arbitrary: i) auto

lemma fn_dispatch_Fast:
  "fn_dispatch tf args = Fast k \<Longrightarrow>
     k < 6 \<and> fast_hit tf k args \<and> (\<forall>k' < k. \<not> fast_hit tf k' args)"
  unfolding fn_dispatch_def
  by (auto split: if_splits option.splits simp: less_Suc_eq_0_disj less_Suc_eq numeral_eq_Suc)

lemma fast_hit_dispatch:
  "fast_hit tf k args \<Longrightarrow> k < 6 \<Longrightarrow> \<exists>k' \<le> k. fn_dispatch tf args = Fast k'"
  unfolding fn_dispatch_def less_6_cases
  by auto

lemma fn_dispatch_Generic:
  "fn_dispatch tf args = Generic i \<Longrightarrow>
     generic_loop (drop (iStart tf) (take (iEnd tf) (defs tf))) (iStart tf) args = Some i"
  unfolding fn_dispatch_def
  by (auto split: if_splits option.splits)

lemma fn_dispatch_NoMatch:
  "fn_dispatch tf args = NoMatch \<Longrightarrow>
     generic_loop (drop (iStart tf) (take (iEnd tf) (defs tf))) (iStart tf) args = None"
  unfolding fn_dispatch_def
  by (auto split: if_splits option.splits)

text \<open>A def pushed by the second loop is never dispatched on arguments that the def it was
  derived from accepts; some def that accepts them is.\<close>

lemma own_twin_not_dispatched:
  assumes c: "createTypedFunction typed nm sigs = Inr tf"
    and p: "parse_signatures typed sigs = Inr parsed"
    and q: "conversion_defs typed 0 (sort_defs typed parsed) = Inr pushed"
    and j: "j < length parsed"
    and m: "test (defs tf ! j) args"
  shows "\<exists>k. dispatched_def (fn_dispatch tf args) = Some k \<and> test (defs tf ! k) args \<and>
             (\<forall>i < length pushed. fst (pushed ! i) = j \<longrightarrow> k \<noteq> length parsed + i)"
proof -
  let ?n = "length parsed"
  from c p q have d: "defs tf = sort_defs typed parsed @ map snd pushed"
    by (auto elim!: createTypedFunction_InrE)
  from c have ist: "iStart tf = (if list_all (ok_fast (defs tf)) [0 ..< 6] then 6 else 0)"
    and ie: "iEnd tf = length (defs tf)"
    by (auto elim!: createTypedFunction_InrE)
  have n: "length (sort_defs typed parsed) = ?n" by (rule length_sort_defs)
  have jd: "j < length (defs tf)" using j d n by simp
  have s: "compiled_def typed x" if "x \<in> set (sort_defs typed parsed)" for x
    using parse_signatures_compiled[OF p] that by (simp add: set_sort_defs)
  have dj: "defs tf ! j = sort_defs typed parsed ! j" using j d n by (simp add: nth_append)
  \<comment> \<open>a twin qualifies for the fast path only if its original does\<close>
  have twin_ok: "ok_fast (defs tf) j"
    if pi: "i < length pushed" and pj: "fst (pushed ! i) = j" and ok: "ok_fast (defs tf) (?n + i)"
    for i
  proof -
    define d' where "d' = snd (pushed ! i)"
    have pd: "pushed ! i = (j, d')" using pj by (simp add: d'_def prod_eq_iff)
    have tw: "(j, d') \<in> set pushed" using pi pd by (metis nth_mem)
    from pi pd have di: "defs tf ! (?n + i) = d'"
      using d n by (simp add: nth_append)
    from conversion_defs_pushed[OF q tw s]
    have "length (params (signature d')) = length (params (signature (defs tf ! j)))"
      and "signature.restParam (signature d') = signature.restParam (signature (defs tf ! j))"
      by (simp_all add: dj)
    with ok jd show ?thesis by (simp add: ok_fast_def di)
  qed
  \<comment> \<open>whatever is dispatched comes no later than def \<open>j\<close>, or is a fast-path def while
      def \<open>j\<close> does not qualify for the fast path\<close>
  have fast_j: "fast_hit tf j args" if "ok_fast (defs tf) j" "j < 6"
    using fast_hit_iff[OF c that(2), of args] that(1) m by simp
  show ?thesis
  proof (cases "fn_dispatch tf args")
    case (Fast k)
    from fn_dispatch_Fast[OF Fast] have k: "k < 6" "fast_hit tf k args"
      and least: "\<forall>k' < k. \<not> fast_hit tf k' args" by simp_all
    from fast_hit_iff[OF c k(1), of args] k(2)
    have okk: "ok_fast (defs tf) k" and tk: "test (defs tf ! k) args" by simp_all
    have "k \<noteq> ?n + i" if i: "i < length pushed" "fst (pushed ! i) = j" for i
    proof
      assume e: "k = ?n + i"
      with okk have "ok_fast (defs tf) j" using twin_ok[OF i] by simp
      moreover from e j k(1) have "j < 6" "j < k" by simp_all
      ultimately show False using fast_j least by blast
    qed
    with Fast tk show ?thesis by auto
  next
    case (Generic r)
    from fn_dispatch_Generic[OF Generic]
    have g: "generic_loop (drop (iStart tf) (defs tf)) (iStart tf) args = Some r"
      by (simp add: ie)
    from generic_loop_Some[OF g]
    have r: "iStart tf \<le> r" "r < length (defs tf)"
      and tr: "test (drop (iStart tf) (defs tf) ! (r - iStart tf)) args"
      and least: "\<forall>m < r - iStart tf. \<not> test (drop (iStart tf) (defs tf) ! m) args"
      by auto
    from r tr have tk: "test (defs tf ! r) args" by simp
    have nofast: "\<not> fast_hit tf k args" if "k < 6" for k
      using fast_hit_dispatch[OF _ that, of tf args] Generic by auto
    have "r \<le> j"
    proof (rule ccontr)
      assume "\<not> r \<le> j"
      then have jr: "j < r" by simp
      show False
      proof (cases "iStart tf \<le> j")
        case True
        from True jr have "j - iStart tf < r - iStart tf" by (simp add: diff_less_mono)
        with least have "\<not> test (drop (iStart tf) (defs tf) ! (j - iStart tf)) args"
          by blast
        moreover from True jd have "drop (iStart tf) (defs tf) ! (j - iStart tf) = defs tf ! j"
          by simp
        ultimately show False using m by simp
      next
        case False
        with ist have all: "list_all (ok_fast (defs tf)) [0 ..< 6]" and j6: "j < 6"
          by (auto split: if_splits)
        from all j6 have "ok_fast (defs tf) j" by (simp add: list_all_iff)
        from fast_j[OF this j6] nofast[OF j6] show False by simp
      qed
    qed
    with j have "r \<noteq> ?n + i" for i by simp
    with Generic tk show ?thesis by auto
  next
    case NoMatch
    from fn_dispatch_NoMatch[OF NoMatch]
    have g: "\<forall>d \<in> set (drop (iStart tf) (defs tf)). \<not> test d args"
      by (simp add: ie generic_loop_None)
    have nofast: "\<not> fast_hit tf k args" if "k < 6" for k
      using fast_hit_dispatch[OF _ that, of tf args] NoMatch by auto
    have False
    proof (cases "iStart tf \<le> j")
      case True
      with jd have "j - iStart tf < length (drop (iStart tf) (defs tf))" by simp
      then have "drop (iStart tf) (defs tf) ! (j - iStart tf) \<in> set (drop (iStart tf) (defs tf))"
        by (rule nth_mem)
      moreover from True jd have "drop (iStart tf) (defs tf) ! (j - iStart tf) = defs tf ! j"
        by simp
      ultimately have "defs tf ! j \<in> set (drop (iStart tf) (defs tf))" by simp
      with g m show False by blast
    next
      case False
      with ist have all: "list_all (ok_fast (defs tf)) [0 ..< 6]" and j6: "j < 6"
        by (auto split: if_splits)
      from all j6 have "ok_fast (defs tf) j" by (simp add: list_all_iff)
      from fast_j[OF this j6] nofast[OF j6] show False by simp
    qed
    then show ?thesis ..
  qed
qed

lemma generic_loop_SomeI:
  "r < length ds \<Longrightarrow> test (ds ! r) args \<Longrightarrow> (\<forall>m < r. \<not> test (ds ! m) args) \<Longrightarrow>
     generic_loop ds i args = Some (i + r)"
proof (induction ds arbitrary: i r)
  case Nil
  then show ?case by simp
next
  case (Cons d ds)
  show ?case
  proof (cases r)
    case 0
    with Cons.prems show ?thesis by simp
  next
    case (Suc r')
    with Cons.prems have "\<not> test d args" by auto
    moreover from Cons.prems Suc have "generic_loop ds (Suc i) args = Some (Suc i + r')"
      by (intro Cons.IH) auto
    ultimately show ?thesis using Suc by simp
  qed
qed

lemma compileParams_length:
  assumes "compileParams typed sg = Inr t" and "\<not> signature.restParam sg" and "t args"
  shows "length args = length (params sg)"
proof -
  consider "length (params sg) = 0" | "length (params sg) = 1" | "length (params sg) = 2"
    | "length (params sg) > 2" by linarith
  then show ?thesis
  proof cases
    case 4
    then have "params sg \<noteq> []" "length (params sg) \<noteq> 1" "length (params sg) \<noteq> 2"
      by auto
    with assms show ?thesis
      by (auto simp: compileParams_def split: sum.splits dest: map_throwing_length)
  qed (use assms in \<open>auto simp: compileParams_def split: sum.splits\<close>)
qed

lemma typed_call_dispatched:
  assumes c: "createTypedFunction typed nm sigs = Inr tf"
  shows "typed_call typed' tf args =
           (case dispatched_def (fn_dispatch tf args) of
              Some k \<Rightarrow> invoke_def (defs tf ! k) args
            | None \<Rightarrow> Inl (createError typed' nm args (defs tf)))"
proof (cases "fn_dispatch tf args")
  case (Fast k)
  from fn_dispatch_Fast[OF Fast] have k: "k < 6" "fast_hit tf k args" by simp_all
  from fast_hit_iff[OF c k(1), of args] k(2) have ok: "ok_fast (defs tf) k" by simp
  from c have "fns tf = map (\<lambda>k. if ok_fast (defs tf) k then fn (defs tf ! k) else undef) [0 ..< 6]"
    by (rule createTypedFunction_InrE)
  with k(1) ok have f: "fns tf ! k = fn (defs tf ! k)" by (simp del: upt_Suc)
  from ok have "defs tf ! k \<in> set (defs tf)" by (simp add: ok_fast_def)
  from defs_compiled[OF c this] ok have "\<not> restParam (defs tf ! k)"
    by (simp add: compiled_def_def ok_fast_def)
  with Fast f show ?thesis by (simp add: typed_call_def invoke_def_def)
next
  case (Generic i)
  then show ?thesis by (simp add: typed_call_def invoke_def_def Let_def)
next
  case NoMatch
  from c have "fn_name tf = nm" by (rule createTypedFunction_InrE)
  with NoMatch show ?thesis by (simp add: typed_call_def)
qed

lemma dispatch_is_linear_scan:
  assumes c: "createTypedFunction typed nm sigs = Inr tf"
    and h: "no_rest_in_fast_range tf"
  shows "dispatched_def (fn_dispatch tf args) = sorted_linear_scan tf args"
proof -
  from c have ist: "iStart tf = (if list_all (ok_fast (defs tf)) [0 ..< 6] then 6 else 0)"
    and ie: "iEnd tf = length (defs tf)"
    by (auto elim!: createTypedFunction_InrE)
  have cd: "compileParams typed (signature (defs tf ! m)) = Inr (test (defs tf ! m))"
    if "m < length (defs tf)" for m
    using defs_compiled[OF c, of "defs tf ! m"] that by (simp add: compiled_def_def)
  have norest: "\<not> signature.restParam (signature (defs tf ! m))"
    if "m < 6" "m < length (defs tf)" for m
  proof -
    from that have "defs tf ! m \<in> set (take 6 (defs tf))"
      by (metis length_take min_less_iff_conj nth_mem nth_take)
    with h show ?thesis by (simp add: no_rest_in_fast_range_def list_all_iff)
  qed
  \<comment> \<open>a def of the first six that accepts the arguments while the fast path does not hit it
      has more than two params\<close>
  have long: "length args > 2"
    if "m < 6" "m < length (defs tf)" "test (defs tf ! m) args" "\<not> fast_hit tf m args" for m
  proof -
    from fast_hit_iff[OF c that(1), of args] that(3,4) have "\<not> ok_fast (defs tf) m" by simp
    with that(1,2) norest have "length (params (signature (defs tf ! m))) > 2"
      by (auto simp: ok_fast_def)
    with compileParams_length[OF cd[OF that(2)] norest[OF that(1,2)] that(3)] show ?thesis
      by simp
  qed
  have allok: "ok_fast (defs tf) m" if "iStart tf \<noteq> 0" "m < 6" for m
    using that ist by (auto simp: list_all_iff split: if_splits)
  show ?thesis
  proof (cases "fn_dispatch tf args")
    case (Fast k)
    from fn_dispatch_Fast[OF Fast] have k: "k < 6" "fast_hit tf k args"
      and least: "\<forall>k' < k. \<not> fast_hit tf k' args" by simp_all
    from fast_hit_iff[OF c k(1), of args] k(2)
    have okk: "ok_fast (defs tf) k" and tk: "test (defs tf ! k) args" by simp_all
    from okk have kl: "k < length (defs tf)"
      and "length (params (signature (defs tf ! k))) \<le> 2"
      and "\<not> signature.restParam (signature (defs tf ! k))"
      by (simp_all add: ok_fast_def)
    with compileParams_length[OF cd[OF kl] _ tk] have short: "length args \<le> 2" by simp
    have "\<not> test (defs tf ! m) args" if "m < k" for m
    proof
      assume "test (defs tf ! m) args"
      with long[of m] that k(1) kl least have "length args > 2" by simp
      with short show False by simp
    qed
    with kl tk have "generic_loop (defs tf) 0 args = Some (0 + k)"
      by (intro generic_loop_SomeI) auto
    with Fast show ?thesis by (simp add: sorted_linear_scan_def)
  next
    case (Generic r)
    have nofast: "\<not> fast_hit tf k args" if "k < 6" for k
      using fast_hit_dispatch[OF _ that, of tf args] Generic by auto
    from fn_dispatch_Generic[OF Generic]
    have g: "generic_loop (drop (iStart tf) (defs tf)) (iStart tf) args = Some r"
      by (simp add: ie)
    from generic_loop_Some[OF g]
    have r: "iStart tf \<le> r" "r < length (defs tf)"
      and tr: "test (drop (iStart tf) (defs tf) ! (r - iStart tf)) args"
      and least: "\<forall>m < r - iStart tf. \<not> test (drop (iStart tf) (defs tf) ! m) args"
      by auto
    from r tr have tk: "test (defs tf ! r) args" by simp
    have "\<not> test (defs tf ! m) args" if mr: "m < r" for m
    proof (cases "iStart tf \<le> m")
      case True
      with mr have "m - iStart tf < r - iStart tf" by (simp add: diff_less_mono)
      with least have "\<not> test (drop (iStart tf) (defs tf) ! (m - iStart tf)) args" by blast
      moreover from True mr r have "drop (iStart tf) (defs tf) ! (m - iStart tf) = defs tf ! m"
        by simp
      ultimately show ?thesis by simp
    next
      case False
      with ist have m6: "m < 6" and nz: "iStart tf \<noteq> 0" by (auto split: if_splits)
      from fast_hit_iff[OF c m6, of args] nofast[OF m6] allok[OF nz m6] show ?thesis by simp
    qed
    with r tk have "generic_loop (defs tf) 0 args = Some (0 + r)"
      by (intro generic_loop_SomeI) auto
    with Generic show ?thesis by (simp add: sorted_linear_scan_def)
  next
    case NoMatch
    have nofast: "\<not> fast_hit tf k args" if "k < 6" for k
      using fast_hit_dispatch[OF _ that, of tf args] NoMatch by auto
    from fn_dispatch_NoMatch[OF NoMatch]
    have g: "\<forall>d \<in> set (drop (iStart tf) (defs tf)). \<not> test d args"
      by (simp add: ie generic_loop_None)
    have "\<not> test (defs tf ! m) args" if ml: "m < length (defs tf)" for m
    proof (cases "iStart tf \<le> m")
      case True
      with ml have "m - iStart tf < length (drop (iStart tf) (defs tf))" by simp
      then have "drop (iStart tf) (defs tf) ! (m - iStart tf) \<in> set (drop (iStart tf) (defs tf))"
        by (rule nth_mem)
      moreover from True ml have "drop (iStart tf) (defs tf) ! (m - iStart tf) = defs tf ! m"
        by simp
      ultimately show ?thesis using g by auto
    next
      case False
      with ist have m6: "m < 6" and nz: "iStart tf \<noteq> 0" by (auto split: if_splits)
      from fast_hit_iff[OF c m6, of args] nofast[OF m6] allok[OF nz m6] show ?thesis by simp
    qed
    then have "generic_loop (defs tf) 0 args = None"
      by (auto simp: generic_loop_None in_set_conv_nth)
    with NoMatch show ?thesis by (simp add: sorted_linear_scan_def)
  qed
qed

section \<open>Facts about the initial registry\<close>

lemma upt_6: "[0..<6] = [0, 1, 2, 3, 4, 5]"
  by code_simp

lemma findTest_create_number: "findTest create ''number'' = Inr typeof_number"
  by (simp add: findTest_def create_def default_types_def)

lemma findTest_create_string: "findTest create ''string'' = Inr typeof_string"
  by (simp add: findTest_def create_def default_types_def)

lemma getConversions_create: "getConversions create ps = None"
  by (simp add: getConversions_def getConversions_param_def create_def list_ex_iff)

lemma sort_defs_single: "sort_defs typed [d] = [d]"
  by (simp add: sort_defs_def sort_by_def)

text \<open>A signatures map with one signature that has a rest param, compiled in the initial
  registry: the call runs the implementation on the preprocessed arguments when the test
  accepts them and throws the error of \<^verbatim>\<open>createError\<close> otherwise.\<close>

lemma single_rest_signature:
  assumes ps: "parseParams s = Inr sg"
    and fl: "filterIgnoredTypes create sg = Some sg"
    and cp: "compileParams create sg = Inr t"
    and r: "signature.restParam sg"
  shows "\<exists>tf. createTypedFunction create nm [(s, f)] = Inr tf \<and>
           (\<forall>typed args. typed_call typed tf args =
              (if t args then f (createRestParamPreProcess sg args)
               else Inl (createError typed nm args (defs tf))))"
proof -
  define d where "d = \<lparr>signature = sg, restParam = True, conversion = False,
                        preprocess = Some (createRestParamPreProcess sg), test = t, fn = f\<rparr>"
  have p: "parse_signatures create [(s, f)] = Inr [d]"
    using ps fl cp r by (simp add: d_def)
  have nok: "\<not> ok_fast [d] k" for k
    using r by (cases k) (simp_all add: ok_fast_def d_def)
  have dsel: "signature d = sg" "conversion d = False" "fn d = f"
    by (simp_all add: d_def)
  define tf where "tf = \<lparr>fn_name = nm,
       signatures = [stringifyParams sg \<mapsto> f],
       defs = [d],
       tests0 = [notOk, notOk, notOk, notOk, notOk, notOk],
       tests1 = [notOk, notOk, notOk, notOk, notOk, notOk],
       fns = [undef, undef, undef, undef, undef, undef],
       lens = [-1, -1, -1, -1, -1, -1],
       iStart = 0, iEnd = 1\<rparr>"
  have tf: "createTypedFunction create nm [(s, f)] = Inr tf"
    unfolding createTypedFunction_def p
    by (simp add: sort_defs_single getConversions_create nok upt_6 tf_def dsel Let_def
             del: parse_signatures.simps)
  have ds: "defs tf = [d]" and l: "lens tf = [-1, -1, -1, -1, -1, -1]"
    and i: "iStart tf = 0" "iEnd tf = 1" and n: "fn_name tf = nm"
    by (simp_all add: tf_def)
  have nf: "\<not> fast_hit tf k args" if "k < 6" for k args
    using that unfolding less_6_cases by (auto simp: fast_hit_def l)
  have "typed_call typed tf args =
          (if t args then f (createRestParamPreProcess sg args)
           else Inl (createError typed nm args (defs tf)))" for typed args
    using nf[of _ args]
    by (simp add: typed_call_def fn_dispatch_def ds i n d_def)
  with tf show ?thesis by blast
qed

section \<open>Facts about the map of signatures\<close>





lemma originals_of_defs:
  assumes c: "createTypedFunction typed nm sigs = Inr tf"
  shows "\<exists>parsed. parse_signatures typed sigs = Inr parsed \<and>
           filter (\<lambda>d. \<not> conversion d) (defs tf) = sort_defs typed parsed"
proof -
  from c obtain parsed pushed where
    p: "parse_signatures typed sigs = Inr parsed" and
    q: "conversion_defs typed 0 (sort_defs typed parsed) = Inr pushed" and
    d: "defs tf = sort_defs typed parsed @ map snd pushed"
    by (rule createTypedFunction_InrE)
  have s: "compiled_def typed x \<and> \<not> conversion x" if "x \<in> set (sort_defs typed parsed)" for x
    using parse_signatures_compiled[OF p] that by (simp add: set_sort_defs)
  have "conversion x" if "x \<in> set (map snd pushed)" for x
  proof -
    from that obtain j where "(j, x) \<in> set pushed" by auto
    from conversion_defs_pushed[OF q this] s show ?thesis by simp
  qed
  with s have "filter (\<lambda>d. \<not> conversion d) (defs tf) = sort_defs typed parsed"
    by (simp add: d filter_id_conv filter_empty_conv)
  with p show ?thesis by blast
qed

lemma original_defs_surviving:
  assumes c: "createTypedFunction typed nm sigs = Inr tf"
  shows "mset (map (\<lambda>d. (signature d, fn d)) (filter (\<lambda>d. \<not> conversion d) (defs tf))) =
           mset (surviving typed sigs)"
proof -
  from originals_of_defs[OF c] obtain parsed where
    p: "parse_signatures typed sigs = Inr parsed" and
    f: "filter (\<lambda>d. \<not> conversion d) (defs tf) = sort_defs typed parsed" by blast
  have "mset (map (\<lambda>d. (signature d, fn d)) (sort_defs typed parsed)) =
          mset (map (\<lambda>d. (signature d, fn d)) parsed)"
    by (simp add: mset_sort_defs)
  with parse_signatures_surviving[OF p] f show ?thesis by simp
qed




section \<open>Facts about strings and canonical keys\<close>


lemma last_dropWhile_eq: "dropWhile P xs \<noteq> [] \<Longrightarrow> last (dropWhile P xs) = last xs"
  by (induction xs) (auto split: if_splits)

lemma trim_clean:
  assumes "trim s \<noteq> []"
  shows "\<not> is_space (hd (trim s))" and "\<not> is_space (last (trim s))"
proof -
  let ?u = "dropWhile is_space s"
  let ?v = "dropWhile is_space (rev ?u)"
  from assms have v: "?v \<noteq> []" by (simp add: trim_def)
  then have "rev ?u \<noteq> []" by (metis dropWhile.simps(1))
  then have u: "?u \<noteq> []" by simp
  from v have "\<not> is_space (hd ?v)" by (rule hd_dropWhile)
  then show "\<not> is_space (last (trim s))" using v by (simp add: trim_def last_rev)
  from v have "last ?v = last (rev ?u)" by (rule last_dropWhile_eq)
  also have "\<dots> = hd ?u" using u by (simp add: last_rev)
  finally have "hd (rev ?v) = hd ?u" using v by (simp add: hd_rev)
  moreover from u have "\<not> is_space (hd ?u)" by (rule hd_dropWhile)
  ultimately show "\<not> is_space (hd (trim s))" by (simp add: trim_def)
qed

lemma set_trim: "set (trim s) \<subseteq> set s"
proof -
  have "set (dropWhile is_space (rev (dropWhile is_space s))) \<subseteq> set (rev (dropWhile is_space s))"
    by (meson set_dropWhileD subsetI)
  also have "\<dots> \<subseteq> set s" by (auto dest: set_dropWhileD)
  finally show ?thesis by (simp add: trim_def)
qed

lemma split_not_Nil: "split c s \<noteq> []"
  by (induction s) (auto split: list.splits)

lemma split_pieces: "piece \<in> set (split c s) \<Longrightarrow> c \<notin> set piece \<and> set piece \<subseteq> set s"
proof (induction s arbitrary: piece)
  case Nil
  then show ?case by simp
next
  case (Cons x xs)
  show ?case
  proof (cases "x = c")
    case True
    with Cons show ?thesis by auto
  next
    case False
    obtain p ps where sp: "split c xs = p # ps"
      using split_not_Nil[of c xs] by (cases "split c xs") auto
    with Cons.prems False have "piece = x # p \<or> piece \<in> set ps" by simp
    then show ?thesis
    proof
      assume "piece = x # p"
      moreover have "c \<notin> set p \<and> set p \<subseteq> set xs" using Cons.IH[of p] sp by simp
      ultimately show ?thesis using False by auto
    next
      assume "piece \<in> set ps"
      then have "c \<notin> set piece \<and> set piece \<subseteq> set xs" using Cons.IH[of piece] sp by simp
      then show ?thesis by auto
    qed
  qed
qed










lemma parseParam_clean:
  assumes "CHR '','' \<notin> set param" and "ty \<in> set (parseParam param)"
  shows "clean_name ty"
proof -
  from assms(2) obtain piece where
    p: "piece \<in> set (split CHR ''|'' param)" and ty: "ty = trim piece" and ne: "ty \<noteq> []"
    by (auto simp: parseParam_def notEmpty_def)
  from split_pieces[OF p] set_trim[of piece] assms(1) have "CHR '','' \<notin> set ty"
    unfolding ty by blast
  with trim_clean[of piece] ne ty show ?thesis by (simp add: clean_name_def)
qed

lemma parseParams_forEach_clean:
  "parseParams_forEach len index pieces = Inr (ps, r) \<Longrightarrow>
     \<forall>piece \<in> set pieces. CHR '','' \<notin> set piece \<Longrightarrow>
     param \<in> set ps \<Longrightarrow> ty \<in> set param \<Longrightarrow> clean_name ty"
proof (induction pieces arbitrary: index ps r)
  case Nil
  then show ?case by simp
next
  case (Cons piece pieces)
  from Cons.prems(1) obtain ps' r' where
    rec: "parseParams_forEach len (Suc index) pieces = Inr (ps', r')" and
    ps: "ps = parseParam (if take 3 piece = ''...''
                          then (if length piece > 3 then drop 3 piece else ''any'')
                          else piece) # ps'"
    by (auto simp: Let_def split: if_splits sum.splits)
  from Cons.prems(2) have c: "CHR '','' \<notin> set piece" by simp
  then have "CHR '','' \<notin> set (drop 3 piece)" by (meson in_set_dropD)
  with c have c': "CHR '','' \<notin> set (if take 3 piece = ''...''
                          then (if length piece > 3 then drop 3 piece else ''any'')
                          else piece)"
    by simp
  from Cons.prems(3) ps consider
    "param = parseParam (if take 3 piece = ''...''
                          then (if length piece > 3 then drop 3 piece else ''any'')
                          else piece)" | "param \<in> set ps'"
    by auto
  then show ?case
  proof cases
    case 1
    with parseParam_clean[OF c'] Cons.prems(4) show ?thesis by simp
  next
    case 2
    from Cons.IH[OF rec _ 2 Cons.prems(4)] Cons.prems(2) show ?thesis by simp
  qed
qed

lemma parseParams_clean:
  assumes "parseParams s = Inr sg" and "param \<in> set (params sg)" and "ty \<in> set param"
  shows "clean_name ty"
proof (cases "trim s = []")
  case True
  with assms show ?thesis by (auto simp: parseParams_def)
next
  case False
  with assms(1) obtain r where
    fe: "parseParams_forEach (length (split CHR '','' s)) 0 (map trim (split CHR '','' s)) =
           Inr (params sg, r)"
    by (auto simp: parseParams_def Let_def split: sum.splits)
  have "\<forall>piece \<in> set (map trim (split CHR '','' s)). CHR '','' \<notin> set piece"
    using split_pieces[of _ "CHR '',''" s] set_trim by fastforce
  from parseParams_forEach_clean[OF fe this assms(2,3)] show ?thesis .
qed

lemma filterIgnoredTypes_loop_sub:
  "filterIgnoredTypes_loop typed ps = Some ps' \<Longrightarrow> p' \<in> set ps' \<Longrightarrow>
     p' \<noteq> [] \<and> (\<exists>p \<in> set ps. set p' \<subseteq> set p)"
proof (induction ps arbitrary: ps')
  case Nil
  then show ?case by simp
next
  case (Cons p ps)
  from Cons.prems(1) obtain rest where
    ne: "filter (notIgnore typed) p \<noteq> []" and
    r: "filterIgnoredTypes_loop typed ps = Some rest" and
    ps': "ps' = filter (notIgnore typed) p # rest"
    by (auto simp: Let_def split: if_splits option.splits)
  from Cons.prems(2) ps' consider "p' = filter (notIgnore typed) p" | "p' \<in> set rest" by auto
  then show ?case
  proof cases
    case 1
    with ne show ?thesis by auto
  next
    case 2
    from Cons.IH[OF r 2] show ?thesis by auto
  qed
qed

lemma surviving_clean:
  assumes "(sg, f) \<in> set (surviving typed sigs)"
  shows "clean_signature sg"
proof -
  from assms obtain s parsed where
    p: "parseParams s = Inr parsed" and fl: "filterIgnoredTypes typed parsed = Some sg"
    by (auto simp: surviving_def map_filter_def split: sum.splits option.splits)
  from fl have l: "filterIgnoredTypes_loop typed (params parsed) = Some (params sg)"
    by (auto simp: filterIgnoredTypes_def split: option.splits)
  have "param \<noteq> [] \<and> list_all clean_name param" if "param \<in> set (params sg)" for param
  proof -
    from filterIgnoredTypes_loop_sub[OF l that] obtain p0 where
      "param \<noteq> []" "p0 \<in> set (params parsed)" "set param \<subseteq> set p0" by blast
    with parseParams_clean[OF p] show ?thesis by (auto simp: list_all_iff)
  qed
  then show ?thesis by (simp add: clean_signature_def list_all_iff)
qed





section \<open>Facts about the conversion of arguments\<close>

lemma convertArg_invoked_None:
  "convertArg_invoked i tcs arg = None \<longleftrightarrow> (\<forall>j < length tcs. \<not> fst (tcs ! j) arg)"
proof (induction tcs arbitrary: i)
  case Nil
  then show ?case by simp
next
  case (Cons tc tcs)
  obtain t c where tc: "tc = (t, c)" by (cases tc)
  show ?case
    by (auto simp: tc Cons.IH All_less_Suc2)
qed

lemma convertArg_not_invoked:
  "convertArg_invoked i tcs arg = None \<Longrightarrow> convertArg tcs arg = arg"
  by (induction tcs arbitrary: i) (auto split: if_splits)

lemma convertArg_invoked_Some:
  "convertArg_invoked i tcs arg = Some k \<Longrightarrow>
     i \<le> k \<and> k - i < length tcs \<and> fst (tcs ! (k - i)) arg \<and>
     convertArg tcs arg = snd (tcs ! (k - i)) arg"
proof (induction tcs arbitrary: i)
  case Nil
  then show ?case by simp
next
  case (Cons tc tcs)
  obtain t c where tc: "tc = (t, c)" by (cases tc)
  show ?case
  proof (cases "t arg")
    case True
    with Cons.prems tc show ?thesis by simp
  next
    case False
    with Cons.prems tc have "convertArg_invoked (Suc i) tcs arg = Some k" by simp
    from Cons.IH[OF this] False tc show ?thesis by (auto simp: Suc_diff_le)
  qed
qed

lemma compileArgConversion_tests:
  assumes "compileArgConversion typed convs = Inr tcs"
  shows "length tcs = length convs"
    and "\<And>j. j < length convs \<Longrightarrow>
           findTest typed (conv_from (convs ! j)) = Inr (fst (tcs ! j)) \<and>
           snd (tcs ! j) = convert (convs ! j)"
proof -
  from assms obtain tests where
    t: "map_throwing (\<lambda>c. findTest typed (conv_from c)) convs = Inr tests" and
    tcs: "tcs = zip tests (map convert convs)"
    by (auto simp: compileArgConversion_def split: sum.splits)
  from map_throwing_length[OF t] have l: "length tests = length convs" .
  then show "length tcs = length convs" by (simp add: tcs)
  fix j assume j: "j < length convs"
  with map_throwing_nth[OF t j] l
  show "findTest typed (conv_from (convs ! j)) = Inr (fst (tcs ! j)) \<and>
           snd (tcs ! j) = convert (convs ! j)"
    by (simp add: tcs)
qed

lemma conversion_defs_index:
  "conversion_defs typed i ds = Inr pushed \<Longrightarrow> (j, d') \<in> set pushed \<Longrightarrow>
     i \<le> j \<and> j < i + length ds"
proof (induction ds arbitrary: i pushed)
  case Nil
  then show ?case by simp
next
  case (Cons d ds)
  show ?case
  proof (cases "getConversions typed (params (signature d))")
    case None
    with Cons.prems have "conversion_defs typed (Suc i) ds = Inr pushed" by simp
    from Cons.IH[OF this Cons.prems(2)] show ?thesis by simp
  next
    case (Some convs)
    with Cons.prems(1) obtain d0 rest where
      r: "conversion_defs typed (Suc i) ds = Inr rest" and p: "pushed = (i, d0) # rest"
      by (auto simp: Let_def split: sum.splits)
    from Cons.prems(2) p consider "j = i" | "(j, d') \<in> set rest" by auto
    then show ?thesis
    proof cases
      case 1
      then show ?thesis by simp
    next
      case 2
      from Cons.IH[OF r 2] show ?thesis by simp
    qed
  qed
qed

text \<open>The implementation of a def pushed by the second loop is the closure
  \<^verbatim>\<open>convertArgs\<close> over the implementation of the def it was derived from; its closure
  for position \<open>k\<close> is compiled from \<^verbatim>\<open>getConversions\<close> of param \<open>k\<close>.\<close>

lemma conversion_defs_wrapper:
  "conversion_defs typed i ds = Inr pushed \<Longrightarrow> (j, d') \<in> set pushed \<Longrightarrow>
     \<exists>compiled.
       map_throwing (compileArgConversion typed)
         (map (getConversions_param typed) (params (signature (ds ! (j - i))))) = Inr compiled \<and>
       fn d' = convertArgs (fn (ds ! (j - i))) compiled (restParam (ds ! (j - i)))"
proof (induction ds arbitrary: i pushed)
  case Nil
  then show ?case by simp
next
  case (Cons d ds)
  show ?case
  proof (cases "getConversions typed (params (signature d))")
    case None
    with Cons.prems have r: "conversion_defs typed (Suc i) ds = Inr pushed" by simp
    from conversion_defs_index[OF r Cons.prems(2)] have "Suc i \<le> j" by simp
    with Cons.IH[OF r Cons.prems(2)] show ?thesis by (simp add: Suc_diff_le)
  next
    case (Some convs)
    then have cv: "convs = map (getConversions_param typed) (params (signature d))"
      by (auto simp: getConversions_def Let_def split: if_splits)
    from Some Cons.prems(1) obtain t f rest where
      f: "compileArgsConversion typed (fn d) convs (restParam d) = Inr f" and
      r: "conversion_defs typed (Suc i) ds = Inr rest" and
      p: "pushed = (i, \<lparr>signature = addConvertableParams (signature d) convs,
                         restParam = restParam d, conversion = True,
                         preprocess = preprocess d, test = t, fn = f\<rparr>) # rest"
      by (auto simp: Let_def split: sum.splits)
    from Cons.prems(2) p consider
      "j = i" "fn d' = f" | "(j, d') \<in> set rest" by auto
    then show ?thesis
    proof cases
      case 1
      with f cv show ?thesis
        by (auto simp: compileArgsConversion_def split: sum.splits)
    next
      case 2
      from conversion_defs_index[OF r 2] have "Suc i \<le> j" by simp
      with Cons.IH[OF r 2] show ?thesis by (simp add: Suc_diff_le)
    qed
  qed
qed


section \<open>Facts about the registry at the time of a call\<close>

lemma find_append_first:
  "\<exists>x \<in> set xs. P x \<Longrightarrow> find P (xs @ ys) = find P xs"
  by (induction xs) auto

lemma reachable_catch_all:
  "reachable typed \<Longrightarrow> \<exists>e \<in> set (types typed). \<forall>v. type_entry.test e v"
proof (induction rule: reachable.induct)
  case initial
  have "\<lparr>name = ''any'', test = ok\<rparr> \<in> set (types create)"
    by (simp add: create_def default_types_def)
  moreover have "\<forall>v. type_entry.test \<lparr>name = ''any'', test = ok\<rparr> v" by (simp add: ok_def)
  ultimately show ?case by blast
qed (auto simp: addType_def addConversion_def)

lemma actualTypes_of_addType:
  assumes "\<exists>e \<in> set (types typed). \<forall>v. type_entry.test e v"
  shows "actualTypes_of (addType typed ty) args = actualTypes_of typed args"
proof -
  have "find (\<lambda>entry. type_entry.test entry arg) (types typed @ [ty]) =
        find (\<lambda>entry. type_entry.test entry arg) (types typed)" for arg
    using assms by (intro find_append_first) auto
  then show ?thesis by (simp add: actualTypes_of_def addType_def)
qed

lemma createError_types_only:
  assumes "actualTypes_of typed' args = actualTypes_of typed args"
  shows "createError typed' nm args ds = createError typed nm args ds"
  unfolding createError_def assms by (rule refl)

lemma typed_call_types_only:
  assumes "actualTypes_of typed' args = actualTypes_of typed args"
  shows "typed_call typed' tf args = typed_call typed tf args"
  unfolding typed_call_def createError_types_only[OF assms] by (rule refl)


section \<open>Facts about the error builder\<close>


lemma viable_subset: "set (viable ds ats (Suc i)) \<subseteq> set (viable ds ats i)"
  by simp

lemma viable_not_Nil: "viable ds ats i \<noteq> [] \<Longrightarrow> j \<le> i \<Longrightarrow> viable ds ats j \<noteq> []"
proof (induction i)
  case 0
  then show ?case by simp
next
  case (Suc i)
  show ?case
  proof (cases "j = Suc i")
    case True
    with Suc.prems show ?thesis by simp
  next
    case False
    with Suc.prems have "j \<le> i" by simp
    moreover from Suc.prems(1) have "viable ds ats i \<noteq> []" by auto
    ultimately show ?thesis by (rule Suc.IH[rotated])
  qed
qed












section \<open>Facts about the signatures of the defs\<close>

lemma parseParams_forEach_rest:
  "parseParams_forEach len index pieces = Inr (ps, r) \<Longrightarrow> r \<Longrightarrow> ps \<noteq> []"
  by (cases pieces) (auto simp: Let_def split: if_splits sum.splits)

lemma parseParams_rest:
  "parseParams s = Inr sg \<Longrightarrow> signature.restParam sg \<Longrightarrow> params sg \<noteq> []"
  by (auto simp: parseParams_def Let_def split: if_splits sum.splits
           dest: parseParams_forEach_rest)

lemma filterIgnoredTypes_loop_Nil:
  "filterIgnoredTypes_loop typed ps = Some [] \<Longrightarrow> ps = []"
  by (cases ps) (auto simp: Let_def split: if_splits option.splits)

lemma surviving_proper:
  assumes "(sg, f) \<in> set (surviving typed sigs)"
  shows "proper_signature sg"
proof -
  from assms obtain s parsed where
    p: "parseParams s = Inr parsed" and fl: "filterIgnoredTypes typed parsed = Some sg"
    by (auto simp: surviving_def map_filter_def split: sum.splits option.splits)
  from fl have l: "filterIgnoredTypes_loop typed (params parsed) = Some (params sg)"
    and r: "signature.restParam sg = signature.restParam parsed"
    by (auto simp: filterIgnoredTypes_def split: option.splits)
  from surviving_clean[OF assms] have "list_all (\<lambda>param. param \<noteq> []) (params sg)"
    by (simp add: clean_signature_def list_all_iff)
  moreover have "params sg \<noteq> []" if "signature.restParam sg"
  proof
    assume "params sg = []"
    with l have "params parsed = []" by (simp add: filterIgnoredTypes_loop_Nil)
    with parseParams_rest[OF p] r that show False by simp
  qed
  ultimately show ?thesis by (simp add: proper_signature_def)
qed

lemma addConvertableParams_proper:
  assumes "proper_signature sg" and "getConversions typed (params sg) = Some convs"
  shows "proper_signature (addConvertableParams sg convs)"
proof -
  from assms(2) have l: "length convs = length (params sg)"
    by (auto simp: getConversions_def Let_def split: if_splits)
  from assms(1) have ne: "\<forall>param \<in> set (params sg). param \<noteq> []"
    by (simp add: proper_signature_def list_all_iff)
  have "\<forall>param \<in> set (params (addConvertableParams sg convs)). param \<noteq> []"
    using ne by (auto simp: addConvertableParams_def dest: set_zip_leftD)
  moreover have "params (addConvertableParams sg convs) \<noteq> []" if "params sg \<noteq> []"
    using that l by (auto simp: addConvertableParams_def)
  ultimately show ?thesis
    using assms(1) by (auto simp: proper_signature_def list_all_iff addConvertableParams_def)
qed

lemma conversion_defs_proper:
  "conversion_defs typed i ds = Inr pushed \<Longrightarrow> (j, d') \<in> set pushed \<Longrightarrow>
     (\<And>d. d \<in> set ds \<Longrightarrow> proper_signature (signature d)) \<Longrightarrow>
     proper_signature (signature d')"
proof (induction ds arbitrary: i pushed)
  case Nil
  then show ?case by simp
next
  case (Cons d ds)
  show ?case
  proof (cases "getConversions typed (params (signature d))")
    case None
    with Cons.prems have "conversion_defs typed (Suc i) ds = Inr pushed" by simp
    from Cons.IH[OF this Cons.prems(2)] Cons.prems(3) show ?thesis by simp
  next
    case (Some convs)
    with Cons.prems(1) obtain t f rest where
      r: "conversion_defs typed (Suc i) ds = Inr rest" and
      p: "pushed = (i, \<lparr>signature = addConvertableParams (signature d) convs,
                         restParam = restParam d, conversion = True,
                         preprocess = preprocess d, test = t, fn = f\<rparr>) # rest"
      by (auto simp: Let_def split: sum.splits)
    from Cons.prems(2) p consider
      "signature d' = addConvertableParams (signature d) convs" | "(j, d') \<in> set rest"
      by auto
    then show ?thesis
    proof cases
      case 1
      with addConvertableParams_proper[OF _ Some] Cons.prems(3)[of d] show ?thesis by simp
    next
      case 2
      from Cons.IH[OF r 2] Cons.prems(3) show ?thesis by simp
    qed
  qed
qed

text \<open>Every def of a compiled function has a proper signature.\<close>

lemma compiled_defs_proper:
  assumes c: "createTypedFunction typed nm sigs = Inr tf"
  shows "list_all (\<lambda>d. proper_signature (signature d)) (defs tf)"
proof -
  from c obtain parsed pushed where
    p: "parse_signatures typed sigs = Inr parsed" and
    q: "conversion_defs typed 0 (sort_defs typed parsed) = Inr pushed" and
    d: "defs tf = sort_defs typed parsed @ map snd pushed"
    by (rule createTypedFunction_InrE)
  have s: "proper_signature (signature x)" if "x \<in> set (sort_defs typed parsed)" for x
  proof -
    from that have "x \<in> set parsed" by (simp add: set_sort_defs)
    then have "(signature x, fn x) \<in> set (map (\<lambda>d. (signature d, fn d)) parsed)" by auto
    then have "(signature x, fn x) \<in> set (surviving typed sigs)"
      by (simp only: parse_signatures_surviving[OF p])
    then show ?thesis by (rule surviving_proper)
  qed
  have "proper_signature (signature x)" if "x \<in> set (map snd pushed)" for x
  proof -
    from that obtain j where "(j, x) \<in> set pushed" by auto
    from conversion_defs_proper[OF q this s] show ?thesis .
  qed
  with s show ?thesis by (auto simp: d list_all_iff)
qed

section \<open>Rest params\<close>

text \<open>
  Claim C1, as stated: the rest signature \<^verbatim>\<open>...number\<close> accepts zero or more numbers (a call
  with zero arguments dispatches to it), and \<^verbatim>\<open>number, ...string\<close> requires at least 1
  argument, the first numeric and the remainder strings.

  The code at the smallest calls: the test compiled for a signature with a rest param ends in
  \<^verbatim>\<open>args.length >= varIndex + 1\<close>, so the call of \<^verbatim>\<open>...number\<close> without arguments and the
  call of \<^verbatim>\<open>number, ...string\<close> on one number both throw the error of category
  \<^verbatim>\<open>tooFewArgs\<close>.
\<close>

theorem rest_param_needs_an_argument_counterexample:
  "(case createTypedFunction create ''sum'' [(''...number'', tagged ''sum'')] of
      Inl e \<Rightarrow> False
    | Inr tf \<Rightarrow>
        typed_call create tf [] =
          Inl (TypeError ''Too few arguments in function sum (expected: number, index: 0)''
                 (TooFewArgs ''sum'' 0 [''number''])))
   \<and>
   (case createTypedFunction create ''g'' [(''number, ...string'', tagged ''g'')] of
      Inl e \<Rightarrow> False
    | Inr tf \<Rightarrow>
        typed_call create tf [VNumber 1] =
          Inl (TypeError ''Too few arguments in function g (expected: string, index: 1)''
                 (TooFewArgs ''g'' 1 [''string''])))"
  by code_simp

text \<open>
  Claim C1, amended: in the initial registry, the function compiled from the one signature
  \<^verbatim>\<open>...number\<close> runs its implementation, on the array of all arguments, exactly on the
  calls with one or more arguments that are all numbers; the function compiled from
  \<^verbatim>\<open>number, ...string\<close> runs its implementation, on the first argument and the array of the
  others, exactly on the calls with two or more arguments of which the first is a number and
  the others are strings. Every other call throws the error built by \<^verbatim>\<open>createError\<close>.
\<close>

theorem rest_param_arity:
  "(\<exists>tf. createTypedFunction create nm [(''...number'', f)] = Inr tf \<and>
      (\<forall>typed args. typed_call typed tf args =
         (if 1 \<le> length args \<and> list_all typeof_number args
          then f [VArray args]
          else Inl (createError typed nm args (defs tf)))))
   \<and>
   (\<exists>tf. createTypedFunction create nm [(''number, ...string'', f)] = Inr tf \<and>
      (\<forall>typed args. typed_call typed tf args =
         (if 2 \<le> length args \<and> typeof_number (hd args) \<and> list_all typeof_string (tl args)
          then f [hd args, VArray (tl args)]
          else Inl (createError typed nm args (defs tf)))))"
proof
  let ?sg = "\<lparr>params = [[''number'']], restParam = True\<rparr>"
  let ?t = "\<lambda>args. list_all typeof_number args \<and> 1 \<le> length args"
  have ps: "parseParams ''...number'' = Inr ?sg" by code_simp
  have fl: "filterIgnoredTypes create ?sg = Some ?sg" by code_simp
  have cp: "compileParams create ?sg = Inr ?t"
    by (simp add: compileParams_def param_at_def findTest_create_number tests_pass_def)
  have pre: "createRestParamPreProcess ?sg args = [VArray args]" for args
    by (simp add: createRestParamPreProcess_def)
  from single_rest_signature[OF ps fl cp, of nm f]
  show "\<exists>tf. createTypedFunction create nm [(''...number'', f)] = Inr tf \<and>
      (\<forall>typed args. typed_call typed tf args =
         (if 1 \<le> length args \<and> list_all typeof_number args
          then f [VArray args]
          else Inl (createError typed nm args (defs tf))))"
    by (auto simp: pre)
next
  let ?sg = "\<lparr>params = [[''number''], [''string'']], restParam = True\<rparr>"
  let ?t = "\<lambda>args. typeof_number (arg_at args 0) \<and> list_all typeof_string (drop 1 args) \<and>
                   2 \<le> length args"
  have ps: "parseParams ''number, ...string'' = Inr ?sg" by code_simp
  have fl: "filterIgnoredTypes create ?sg = Some ?sg" by code_simp
  have cp: "compileParams create ?sg = Inr ?t"
    by (auto simp: compileParams_def param_at_def findTest_create_number findTest_create_string
                   tests_pass_def fun_eq_iff)
  have t: "?t args \<longleftrightarrow>
             2 \<le> length args \<and> typeof_number (hd args) \<and> list_all typeof_string (tl args)"
    for args
    by (cases args) (auto simp: arg_at_def)
  have pre: "createRestParamPreProcess ?sg args = [hd args, VArray (tl args)]"
    if "2 \<le> length args" for args
    using that by (cases args) (simp_all add: createRestParamPreProcess_def)
  from single_rest_signature[OF ps fl cp, of nm f]
  obtain tf where tf: "createTypedFunction create nm [(''number, ...string'', f)] = Inr tf"
    and call: "\<And>typed args. typed_call typed tf args =
                 (if ?t args then f (createRestParamPreProcess ?sg args)
                  else Inl (createError typed nm args (defs tf)))"
    by auto
  have "typed_call typed tf args =
         (if 2 \<le> length args \<and> typeof_number (hd args) \<and> list_all typeof_string (tl args)
          then f [hd args, VArray (tl args)]
          else Inl (createError typed nm args (defs tf)))" for typed args
    unfolding call t using pre[of args] by simp
  with tf show "\<exists>tf. createTypedFunction create nm [(''number, ...string'', f)] = Inr tf \<and>
      (\<forall>typed args. typed_call typed tf args =
         (if 2 \<le> length args \<and> typeof_number (hd args) \<and> list_all typeof_string (tl args)
          then f [hd args, VArray (tl args)]
          else Inl (createError typed nm args (defs tf))))"
    by blast
qed

theorem rest_param_arity_witness:
  "(\<exists>tf. createTypedFunction create ''sum'' [(''...number'', tagged ''sum'')] = Inr tf \<and>
      typed_call create tf [VNumber 1, VNumber 2, VNumber 3] =
        Inr (VArray [VString ''sum'', VArray [VNumber 1, VNumber 2, VNumber 3]]) \<and>
      typed_call create tf [] = Inl (createError create ''sum'' [] (defs tf)))
   \<and>
   (\<exists>tf. createTypedFunction create ''sum'' [(''number, ...string'', tagged ''sum'')] = Inr tf \<and>
      typed_call create tf [VNumber 1, VString ''a''] =
        Inr (VArray [VString ''sum'', VNumber 1, VArray [VString ''a'']]) \<and>
      typed_call create tf [VNumber 1] = Inl (createError create ''sum'' [VNumber 1] (defs tf)))"
  using rest_param_arity[of "''sum''" "tagged ''sum''"]
  by (auto simp: tagged_def)


section \<open>The fast path against the linear scan\<close>

text \<open>
  Claim C2: for every argument list, a single call of the compiled function tests the defs in
  the fully sorted order (fast-path defs, then generic defs, then conversion-expanded defs)
  and so dispatches to the same def, with the same result, as one linear scan over the sorted,
  conversion-expanded def list.

  The code at a call where it does not: with the conversion from boolean to number
  registered, the signatures \<^verbatim>\<open>...any\<close> and \<^verbatim>\<open>number\<close> give the defs
  \<^verbatim>\<open>number\<close>, \<^verbatim>\<open>...any\<close> and the conversion-expanded \<^verbatim>\<open>number|boolean\<close>, in this
  order. Def 1 has a rest param, so the closure \<^verbatim>\<open>fn\<close> has no line for it, but it has
  one for def 2. On the argument \<^verbatim>\<open>true\<close> the line of def 2 matches before the loop of
  \<^verbatim>\<open>generic\<close> gets to test def 1, which the linear scan finds first: the call runs the
  implementation of \<^verbatim>\<open>number\<close> on the converted argument 1 instead of the
  implementation of \<^verbatim>\<open>...any\<close> on the array of the arguments. Where none of the first
  six defs has a rest param the call and the linear scan agree (lemma
  \<open>dispatch_is_linear_scan\<close>).
\<close>

theorem fast_path_overtakes_rest_def:
  "(case createTypedFunction (addConversion create boolean_to_number) ''f''
           [(''...any'', tagged ''rest''), (''number'', tagged ''number'')] of
      Inl e \<Rightarrow> False
    | Inr tf \<Rightarrow>
        map (\<lambda>d. (stringifyParams (signature d), conversion d)) (defs tf) =
          [(''number'', False), (''...any'', False), (''number|boolean'', True)] \<and>
        fn_dispatch tf [VBoolean True] = Fast 2 \<and>
        sorted_linear_scan tf [VBoolean True] = Some 1 \<and>
        typed_call (addConversion create boolean_to_number) tf [VBoolean True] =
          Inr (VArray [VString ''number'', VNumber 1]) \<and>
        (let d = defs tf ! 1 in fn d (the (preprocess d) [VBoolean True])) =
          Inr (VArray [VString ''rest'', VArray [VBoolean True]]))"
  by code_simp

theorem fast_path_overtakes_rest_def_witness:
  "\<exists>tf. createTypedFunction (addConversion create boolean_to_number) ''f''
           [(''...any'', tagged ''rest''), (''number'', tagged ''number'')] = Inr tf \<and>
        dispatched_def (fn_dispatch tf [VBoolean True]) \<noteq> sorted_linear_scan tf [VBoolean True]"
  using fast_path_overtakes_rest_def by (auto split: sum.splits)

section \<open>Exact matches and conversion-expanded defs\<close>

text \<open>
  Where none of the first six defs has a rest param, an argument list that the test of an
  original def \<open>j\<close> accepts is dispatched to the first def in the sorted order that accepts
  it: an original def at or before \<open>j\<close>, and no conversion-expanded def.
\<close>

lemma exact_match_runs_an_original:
  assumes c: "createTypedFunction typed nm sigs = Inr tf"
    and p: "parse_signatures typed sigs = Inr parsed"
    and h: "no_rest_in_fast_range tf"
    and j: "j < length parsed"
    and m: "test (defs tf ! j) args"
  shows "\<exists>k. dispatched_def (fn_dispatch tf args) = Some k \<and>
             typed_call typed' tf args = invoke_def (defs tf ! k) args \<and>
             k \<le> j \<and> \<not> conversion (defs tf ! k) \<and> test (defs tf ! k) args \<and>
             (\<forall>m < k. \<not> test (defs tf ! m) args)"
proof -
  from c p obtain pushed where
    q: "conversion_defs typed 0 (sort_defs typed parsed) = Inr pushed" and
    d: "defs tf = sort_defs typed parsed @ map snd pushed"
    by (auto elim!: createTypedFunction_InrE)
  have n: "length (sort_defs typed parsed) = length parsed" by (rule length_sort_defs)
  have orig: "\<not> conversion (defs tf ! i)" if "i < length parsed" for i
  proof -
    from that have "defs tf ! i \<in> set (sort_defs typed parsed)"
      using d n by (simp add: nth_append)
    then show ?thesis using parse_signatures_compiled[OF p] by (simp add: set_sort_defs)
  qed
  from own_twin_not_dispatched[OF c p q j m] obtain k where
    k: "dispatched_def (fn_dispatch tf args) = Some k" "test (defs tf ! k) args"
    by blast
  from typed_call_dispatched[OF c, of typed' args] k(1)
  have call: "typed_call typed' tf args = invoke_def (defs tf ! k) args" by simp
  from dispatch_is_linear_scan[OF c h, of args] k(1)
  have "generic_loop (defs tf) 0 args = Some k" by (simp add: sorted_linear_scan_def)
  from generic_loop_Some[OF this] have least: "\<forall>m < k. \<not> test (defs tf ! m) args" by simp
  with m have kj: "k \<le> j" by (meson not_le)
  with j have "k < length parsed" by simp
  from orig[OF this] k call kj least show ?thesis by blast
qed

text \<open>
  Claim C3: for every argument list that matches the predicate of an original signature, the
  compiled function invokes the implementation of that original signature, never a
  conversion-expanded def.

  The code at a call where it does not: with the conversion from boolean to number
  registered, the signatures \<^verbatim>\<open>...any\<close> and \<^verbatim>\<open>number\<close> give the defs
  \<^verbatim>\<open>number\<close>, \<^verbatim>\<open>...any\<close> and the conversion-expanded \<^verbatim>\<open>number|boolean\<close>, in this
  order. The argument \<^verbatim>\<open>true\<close> is accepted by the test of the original def
  \<^verbatim>\<open>...any\<close> and by the test of no other original def, so the implementation of
  \<^verbatim>\<open>...any\<close> is the one to run, on the array of the arguments. The call runs def 2
  instead, the conversion-expanded def, on the converted argument 1: def 1 has a rest param,
  the closure \<^verbatim>\<open>fn\<close> has no line for it, and the line of def 2 comes before the loop of
  \<^verbatim>\<open>generic\<close>, the only place that tests def 1.
\<close>

theorem conversion_def_runs_despite_exact_match:
  "(case createTypedFunction (addConversion create boolean_to_number) ''f''
           [(''...any'', tagged ''rest''), (''number'', tagged ''number'')] of
      Inl e \<Rightarrow> False
    | Inr tf \<Rightarrow>
        map (\<lambda>d. (stringifyParams (signature d), conversion d, test d [VBoolean True]))
            (defs tf) =
          [(''number'', False, False), (''...any'', False, True),
           (''number|boolean'', True, True)] \<and>
        invoke_def (defs tf ! 1) [VBoolean True] =
          Inr (VArray [VString ''rest'', VArray [VBoolean True]]) \<and>
        dispatched_def (fn_dispatch tf [VBoolean True]) = Some 2 \<and>
        typed_call (addConversion create boolean_to_number) tf [VBoolean True] =
          invoke_def (defs tf ! 2) [VBoolean True] \<and>
        typed_call (addConversion create boolean_to_number) tf [VBoolean True] =
          Inr (VArray [VString ''number'', VNumber 1]))"
  by code_simp

theorem conversion_def_runs_despite_exact_match_witness:
  "\<exists>tf. createTypedFunction (addConversion create boolean_to_number) ''f''
           [(''...any'', tagged ''rest''), (''number'', tagged ''number'')] = Inr tf \<and>
        \<not> conversion (defs tf ! 1) \<and> test (defs tf ! 1) [VBoolean True] \<and>
        typed_call (addConversion create boolean_to_number) tf [VBoolean True] \<noteq>
          invoke_def (defs tf ! 1) [VBoolean True]"
  using conversion_def_runs_despite_exact_match by (auto split: sum.splits)

section \<open>Arguments that need no conversion\<close>

text \<open>
  Claim C4, as stated: for every conversion-expanded def and every argument position, if the
  argument at that position already satisfies the type test of the original param, the
  wrapper invokes no \<^verbatim>\<open>convert\<close> on it and passes it through unchanged.

  The closure \<^verbatim>\<open>convertArg\<close> never looks at the original param: it tests the
  \<^verbatim>\<open>from\<close> types of the candidate conversions in order and converts at the first test
  that passes. With a conversion from \<^verbatim>\<open>Array\<close> to \<^verbatim>\<open>Object\<close>, an array, which
  passes the test of the original param \<^verbatim>\<open>Object\<close>, is converted; in the call of
  \<^verbatim>\<open>Object, number\<close> on an array and \<^verbatim>\<open>true\<close> the implementation receives the
  converted object.
\<close>

theorem convert_on_matching_argument_counterexample:
  "(case compileArgConversion (addConversion (addConversion create array_to_object) boolean_to_number)
           (getConversions_param
              (addConversion (addConversion create array_to_object) boolean_to_number)
              [''Object'']) of
      Inl e \<Rightarrow> False
    | Inr tcs \<Rightarrow>
        (case compileParam (addConversion (addConversion create array_to_object) boolean_to_number)
                (Some [''Object'']) of
           Inl e \<Rightarrow> False
         | Inr t \<Rightarrow>
             t (VArray []) \<and>
             convertArg_invoked 0 tcs (VArray []) = Some 0 \<and>
             convertArg tcs (VArray []) = VObject 0))
   \<and>
   (case createTypedFunction
           (addConversion (addConversion create array_to_object) boolean_to_number) ''f''
           [(''Object, number'', tagged ''f'')] of
      Inl e \<Rightarrow> False
    | Inr tf \<Rightarrow>
        typed_call (addConversion (addConversion create array_to_object) boolean_to_number) tf
            [VArray [], VBoolean True] =
          Inr (VArray [VString ''f'', VObject 0, VNumber 1]))"
  by code_simp

text \<open>
  Claim C4, amended: for every param of a def and the closure \<^verbatim>\<open>convertArg\<close> compiled
  from the candidate conversions of that param, the closure invokes no \<^verbatim>\<open>convert\<close> on an
  argument, and then passes it through unchanged, exactly when the argument satisfies the test
  of the \<^verbatim>\<open>from\<close> type of none of the candidate conversions; otherwise it returns what the
  \<^verbatim>\<open>convert\<close> of the first such candidate returns, whether or not the argument satisfies
  the test of the original param.
\<close>

theorem convert_invoked_iff_from_test_passes:
  assumes c: "compileArgConversion typed (getConversions_param typed param) = Inr tcs"
  shows "(convertArg_invoked 0 tcs arg = None \<longleftrightarrow>
            (\<forall>c \<in> set (getConversions_param typed param).
               \<forall>t. findTest typed (conv_from c) = Inr t \<longrightarrow> \<not> t arg)) \<and>
         (convertArg_invoked 0 tcs arg = None \<longrightarrow> convertArg tcs arg = arg) \<and>
         (\<forall>i. convertArg_invoked 0 tcs arg = Some i \<longrightarrow>
               i < length (getConversions_param typed param) \<and>
               convertArg tcs arg = convert (getConversions_param typed param ! i) arg)"
proof -
  let ?cs = "getConversions_param typed param"
  note l = compileArgConversion_tests(1)[OF c]
  note n = compileArgConversion_tests(2)[OF c]
  have "convertArg_invoked 0 tcs arg = None \<longleftrightarrow> (\<forall>j < length tcs. \<not> fst (tcs ! j) arg)"
    by (rule convertArg_invoked_None)
  also have "\<dots> \<longleftrightarrow> (\<forall>j < length ?cs. \<forall>t. findTest typed (conv_from (?cs ! j)) = Inr t \<longrightarrow> \<not> t arg)"
    using n l by auto
  also have "\<dots> \<longleftrightarrow> (\<forall>c \<in> set ?cs. \<forall>t. findTest typed (conv_from c) = Inr t \<longrightarrow> \<not> t arg)"
    by (simp add: all_set_conv_all_nth)
  finally have a: "convertArg_invoked 0 tcs arg = None \<longleftrightarrow>
            (\<forall>c \<in> set ?cs. \<forall>t. findTest typed (conv_from c) = Inr t \<longrightarrow> \<not> t arg)" .
  have b: "i < length ?cs \<and> convertArg tcs arg = convert (?cs ! i) arg"
    if "convertArg_invoked 0 tcs arg = Some i" for i
    using convertArg_invoked_Some[OF that] l n[of i] by simp
  from a b convertArg_not_invoked[of 0 tcs arg] show ?thesis by blast
qed

theorem convert_invoked_iff_from_test_passes_witness:
  "\<exists>tcs. compileArgConversion (addConversion create boolean_to_number)
            (getConversions_param (addConversion create boolean_to_number) [''number'']) = Inr tcs \<and>
         convertArg_invoked 0 tcs (VNumber 5) = None \<and>
         convertArg tcs (VNumber 5) = VNumber 5"
proof -
  let ?R = "addConversion create boolean_to_number"
  have g: "getConversions_param ?R [''number''] = [boolean_to_number]"
    by (simp add: getConversions_param_def addConversion_def create_def boolean_to_number_def)
  have f: "findTest ?R ''boolean'' = Inr typeof_boolean"
    by (simp add: findTest_def addConversion_def create_def default_types_def)
  have "case compileArgConversion ?R (getConversions_param ?R [''number'']) of
          Inl e \<Rightarrow> False | Inr tcs \<Rightarrow> True"
    by code_simp
  then obtain tcs where
    c: "compileArgConversion ?R (getConversions_param ?R [''number'']) = Inr tcs"
    by (auto split: sum.splits)
  have b: "conv_from boolean_to_number = ''boolean''" by (simp add: boolean_to_number_def)
  have "\<forall>c \<in> set (getConversions_param ?R [''number'']).
          \<forall>t. findTest ?R (conv_from c) = Inr t \<longrightarrow> \<not> t (VNumber 5)"
    unfolding g by (auto simp: f b)
  with convert_invoked_iff_from_test_passes[OF c, of "VNumber 5"] c show ?thesis by blast
qed


section \<open>Registry changes after the compilation\<close>

text \<open>
  Claim C5: appending a type with \<^verbatim>\<open>addType\<close> or a conversion with
  \<^verbatim>\<open>addConversion\<close> after a function has been compiled changes no observable behaviour
  of that function: for every argument list the dispatch, the returned value and the error
  thrown (with its message and its data, such as the actual type reported) are the same
  before and after.

  A call reads the registry in one place only, where \<^verbatim>\<open>createError\<close> looks the actual
  types up in \<^verbatim>\<open>typed.types\<close>. A type appended by \<^verbatim>\<open>addType\<close> comes after the
  built-in \<^verbatim>\<open>any\<close>, whose test accepts every value, so the first entry that accepts a
  value is the same before and after. The statement is about every typed function value, so
  in particular about one compiled before the change.
\<close>

theorem registry_append_frame:
  assumes "reachable typed"
  shows "typed_call (addType typed ty) tf args = typed_call typed tf args \<and>
         typed_call (addConversion typed c) tf args = typed_call typed tf args"
proof
  from reachable_catch_all[OF assms] have "actualTypes_of (addType typed ty) args = actualTypes_of typed args"
    by (rule actualTypes_of_addType)
  then show "typed_call (addType typed ty) tf args = typed_call typed tf args"
    by (rule typed_call_types_only)
  have "actualTypes_of (addConversion typed c) args = actualTypes_of typed args"
    by (simp add: actualTypes_of_def addConversion_def)
  then show "typed_call (addConversion typed c) tf args = typed_call typed tf args"
    by (rule typed_call_types_only)
qed

theorem registry_append_frame_witness:
  "\<exists>tf. createTypedFunction create ''f'' [(''number'', tagged ''a'')] = Inr tf \<and>
        typed_call (addType create plain_object_type) tf [VObject 7] =
          typed_call create tf [VObject 7] \<and>
        typed_call (addConversion create boolean_to_number) tf [VBoolean True] =
          typed_call create tf [VBoolean True] \<and>
        typed_call create tf [VObject 7] =
          Inl (TypeError
                 ''Unexpected type of argument in function f (expected: number, actual: Object, index: 0)''
                 (WrongType ''f'' 0 ''Object'' [''number'']))"
proof -
  have "case createTypedFunction create ''f'' [(''number'', tagged ''a'')] of
          Inl e \<Rightarrow> False
        | Inr tf \<Rightarrow>
            typed_call create tf [VObject 7] =
              Inl (TypeError
                 ''Unexpected type of argument in function f (expected: number, actual: Object, index: 0)''
                 (WrongType ''f'' 0 ''Object'' [''number'']))"
    by code_simp
  then obtain tf where
    c: "createTypedFunction create ''f'' [(''number'', tagged ''a'')] = Inr tf" and
    e: "typed_call create tf [VObject 7] =
              Inl (TypeError
                 ''Unexpected type of argument in function f (expected: number, actual: Object, index: 0)''
                 (WrongType ''f'' 0 ''Object'' [''number'']))"
    by (auto split: sum.splits)
  have a: "typed_call (addType create plain_object_type) tf [VObject 7] =
             typed_call create tf [VObject 7]"
    using registry_append_frame[OF reachable.initial, of plain_object_type tf "[VObject 7]"]
    by (rule conjunct1)
  have b: "typed_call (addConversion create boolean_to_number) tf [VBoolean True] =
             typed_call create tf [VBoolean True]"
    using registry_append_frame[OF reachable.initial, of _ tf "[VBoolean True]" boolean_to_number]
    by (rule conjunct2)
  show ?thesis
    by (rule exI[of _ tf]) (intro conjI c a b e)
qed


section \<open>The public map of signatures\<close>




section \<open>The error for a wrong type\<close>






section \<open>Defs with the same signature\<close>

text \<open>
  Claim C8, as stated: for every signatures map that the compiler accepts, no two defs of the
  final expanded def list have the same pair of signature and conversion flag; in particular
  two different signature strings that normalise to the same signature do not both produce
  an original def.

  The code has no step that merges or rejects equal signatures. Two strings that differ only
  in white space, or only in an ignored type, each produce an original def with the same
  signature; and two originals with different signatures can get the same conversion-expanded
  signature.
\<close>

theorem duplicate_defs_counterexample:
  "(case createTypedFunction create ''f''
           [(''number'', tagged ''a''), ('' number'', tagged ''b'')] of
      Inl e \<Rightarrow> False
    | Inr tf \<Rightarrow>
        map (\<lambda>d. (signature d, conversion d)) (defs tf) =
          [(\<lparr>params = [[''number'']], restParam = False\<rparr>, False),
           (\<lparr>params = [[''number'']], restParam = False\<rparr>, False)])
   \<and>
   (case createTypedFunction (create\<lparr>ignore := [''null'']\<rparr>) ''f''
           [(''number'', tagged ''a''), (''number | null'', tagged ''b'')] of
      Inl e \<Rightarrow> False
    | Inr tf \<Rightarrow>
        map (\<lambda>d. (signature d, conversion d)) (defs tf) =
          [(\<lparr>params = [[''number'']], restParam = False\<rparr>, False),
           (\<lparr>params = [[''number'']], restParam = False\<rparr>, False)])
   \<and>
   (case createTypedFunction
           (addConversion (addConversion create boolean_to_number) date_to_string) ''f''
           [(''number, string'', tagged ''a''), (''number|boolean, string'', tagged ''b'')] of
      Inl e \<Rightarrow> False
    | Inr tf \<Rightarrow>
        map (\<lambda>d. (signature d, conversion d)) (defs tf) =
          [(\<lparr>params = [[''number''], [''string'']], restParam = False\<rparr>, False),
           (\<lparr>params = [[''number'', ''boolean''], [''string'']], restParam = False\<rparr>, False),
           (\<lparr>params = [[''number'', ''boolean''], [''string'', ''Date'']],
              restParam = False\<rparr>, True),
           (\<lparr>params = [[''number'', ''boolean''], [''string'', ''Date'']],
              restParam = False\<rparr>, True)])"
  by code_simp

text \<open>
  Claim C8, amended: for every signatures map that the compiler accepts and whose entries that
  survive parsing and ignored-type filtering normalise to pairwise different signatures, no
  two original defs of the final def list have the same signature (so no two of them have the
  same pair of signature and conversion flag); the signatures of the original defs are
  exactly the surviving signatures.
\<close>

theorem original_defs_distinct:
  assumes c: "createTypedFunction typed nm sigs = Inr tf"
    and s: "distinct (map fst (surviving typed sigs))"
  shows "distinct (map signature (filter (\<lambda>d. \<not> conversion d) (defs tf))) \<and>
         distinct (map (\<lambda>d. (signature d, conversion d))
                       (filter (\<lambda>d. \<not> conversion d) (defs tf))) \<and>
         set (map signature (filter (\<lambda>d. \<not> conversion d) (defs tf))) =
           set (map fst (surviving typed sigs))"
proof -
  let ?o = "filter (\<lambda>d. \<not> conversion d) (defs tf)"
  note m = original_defs_surviving[OF c]
  have "mset (map signature ?o) = mset (map fst (map (\<lambda>d. (signature d, fn d)) ?o))"
    by (simp add: comp_def)
  also have "\<dots> = image_mset fst (mset (map (\<lambda>d. (signature d, fn d)) ?o))"
    by (simp only: mset_map)
  also have "\<dots> = image_mset fst (mset (surviving typed sigs))" by (simp only: m)
  also have "\<dots> = mset (map fst (surviving typed sigs))" by simp
  finally have e: "mset (map signature ?o) = mset (map fst (surviving typed sigs))" .
  from e have "distinct (map signature ?o) \<longleftrightarrow> distinct (map fst (surviving typed sigs))"
    by (rule mset_eq_imp_distinct_iff)
  with s have d: "distinct (map signature ?o)" by simp
  from d have d2: "distinct (map (\<lambda>d. (signature d, conversion d)) ?o)"
    unfolding distinct_map by (auto simp: inj_on_def)
  from e have "set_mset (mset (map signature ?o)) = set_mset (mset (map fst (surviving typed sigs)))"
    by simp
  then have "set (map signature ?o) = set (map fst (surviving typed sigs))"
    by (simp only: set_mset_mset)
  with d d2 show ?thesis by blast
qed

theorem original_defs_distinct_witness:
  "\<exists>tf. createTypedFunction (addConversion create boolean_to_number) ''f''
           [(''number'', tagged ''a''), (''string, ...any'', tagged ''b'')] = Inr tf \<and>
        distinct (map signature (filter (\<lambda>d. \<not> conversion d) (defs tf)))"
proof -
  let ?R = "addConversion create boolean_to_number"
  let ?sigs = "[(''number'', tagged ''a''), (''string, ...any'', tagged ''b'')]"
  have "case createTypedFunction ?R ''f'' ?sigs of Inl e \<Rightarrow> False | Inr tf \<Rightarrow> True"
    by code_simp
  then obtain tf where c: "createTypedFunction ?R ''f'' ?sigs = Inr tf"
    by (auto split: sum.splits)
  have "distinct (map fst (surviving ?R ?sigs))" by code_simp
  with original_defs_distinct[OF c] c show ?thesis by blast
qed


section \<open>Finding a signature by its key\<close>

text \<open>Two calls of \<^verbatim>\<open>find\<close> on a function compiled from \<^verbatim>\<open>number, number\<close> and
  \<^verbatim>\<open>number,string\<close>: the key \<^verbatim>\<open>string, number\<close> is not found, although both types
  occur in the signatures, and the name \<^verbatim>\<open>toString\<close>, no key of the map, is found in
  \<^verbatim>\<open>Object.prototype\<close>.\<close>

lemma find_examples:
  "(case createTypedFunction create ''f''
           [(''number, number'', tagged ''a''), ('' number,string '', tagged ''b'')] of
      Inl e \<Rightarrow> False
    | Inr tf \<Rightarrow>
        (case find_signature Object_prototype (TypedFunction tf) (SignatureString ''string, number'') of
           Inl e \<Rightarrow> e = TypeError ''Signature not found (signature: f(string, number))'' NoData
         | Inr v \<Rightarrow> False) \<and>
        (case find_signature Object_prototype (TypedFunction tf) (SignatureString '' toString '') of
           Inr (Inherited n) \<Rightarrow> n = ''toString''
         | _ \<Rightarrow> False) \<and>
        (case find_signature Object_prototype (TypedFunction tf) (SignatureString ''number , string'') of
           Inr (Implementation f) \<Rightarrow> f [] = Inr (VArray [VString ''b''])
         | _ \<Rightarrow> False))"
  by code_simp



section \<open>A signatures map of which nothing survives\<close>

lemma parse_signatures_all_discarded:
  "\<forall>(s, f) \<in> set sigs. \<exists>p. parseParams s = Inr p \<and> filterIgnoredTypes typed p = None \<Longrightarrow>
     parse_signatures typed sigs = Inr []"
  by (induction sigs) auto

lemma createError_wrongType_no_defs:
  "createError_wrongType nm ats index [] = Inr []"
  by (induction ats arbitrary: index) (simp_all add: mergeExpectedParams_def flatMap_def)

lemma createError_no_defs:
  "createError typed nm args [] =
     TypeError (''Too few arguments in function '' @ (if nm = [] then ''unnamed'' else nm) @
                '' (expected: , index: '' @ string_of_nat (length args) @ '')'')
               (TooFewArgs (if nm = [] then ''unnamed'' else nm) (length args) [])"
  by (simp add: createError_def createError_wrongType_no_defs Math_min_def
                mergeExpectedParams_def flatMap_def actualTypes_of_def Let_def)

text \<open>
  Claim C10: if the signatures map is not empty but the ignored-type filtering discards every
  signature of it, the compilation succeeds (no error for missing signatures) and returns a
  function with an empty map \<^verbatim>\<open>signatures\<close>; every call of it, on any arguments and
  whatever the registry has become, throws a \<^verbatim>\<open>TypeError\<close> whose data has the category
  \<^verbatim>\<open>tooFewArgs\<close>.
\<close>

theorem all_signatures_ignored:
  assumes ne: "sigs \<noteq> []"
    and disc: "\<forall>(s, f) \<in> set sigs. \<exists>p. parseParams s = Inr p \<and> filterIgnoredTypes typed p = None"
  shows "\<exists>tf. createTypedFunction typed nm sigs = Inr tf \<and>
              signatures tf = Map.empty \<and>
              (\<forall>typed' args.
                 typed_call typed' tf args =
                   Inl (TypeError
                          (''Too few arguments in function '' @
                           (if nm = [] then ''unnamed'' else nm) @
                           '' (expected: , index: '' @ string_of_nat (length args) @ '')'')
                          (TooFewArgs (if nm = [] then ''unnamed'' else nm) (length args) [])) \<and>
                 category (TooFewArgs (if nm = [] then ''unnamed'' else nm) (length args) []) =
                   ''tooFewArgs'')"
proof -
  have p: "parse_signatures typed sigs = Inr []"
    using disc by (rule parse_signatures_all_discarded)
  have nok: "\<not> ok_fast [] k" for k by (simp add: ok_fast_def)
  define tf where "tf = \<lparr>fn_name = nm,
       signatures = Map.empty,
       defs = [],
       tests0 = [notOk, notOk, notOk, notOk, notOk, notOk],
       tests1 = [notOk, notOk, notOk, notOk, notOk, notOk],
       fns = [undef, undef, undef, undef, undef, undef],
       lens = [-1, -1, -1, -1, -1, -1],
       iStart = 0, iEnd = 0\<rparr>"
  have tf: "createTypedFunction typed nm sigs = Inr tf"
    unfolding createTypedFunction_def p
    using ne by (simp add: sort_defs_def sort_by_def nok upt_6 tf_def Let_def)
  have nf: "\<not> fast_hit tf k args" if "k < 6" for k args
    using that unfolding less_6_cases by (auto simp: fast_hit_def tf_def)
  have "typed_call typed' tf args = Inl (createError typed' nm args [])" for typed' args
    using nf[of _ args] by (simp add: typed_call_def fn_dispatch_def tf_def)
  with tf show ?thesis by (auto simp: createError_no_defs tf_def)
qed

theorem all_signatures_ignored_witness:
  "\<exists>tf. createTypedFunction (create\<lparr>ignore := [''null'']\<rparr>) ''f''
           [(''null'', tagged ''a''), (''number, null'', tagged ''b'')] = Inr tf \<and>
        signatures tf = Map.empty \<and>
        typed_call create tf [VNull] =
          Inl (TypeError ''Too few arguments in function f (expected: , index: 1)''
                 (TooFewArgs ''f'' 1 []))"
proof -
  have "(case parseParams ''null'' of Inl e \<Rightarrow> False
         | Inr p \<Rightarrow> filterIgnoredTypes (create\<lparr>ignore := [''null'']\<rparr>) p = None) \<and>
        (case parseParams ''number, null'' of Inl e \<Rightarrow> False
         | Inr p \<Rightarrow> filterIgnoredTypes (create\<lparr>ignore := [''null'']\<rparr>) p = None)"
    by code_simp
  then have "\<forall>(s, f) \<in> set [(''null'', tagged ''a''), (''number, null'', tagged ''b'')].
               \<exists>p. parseParams s = Inr p \<and>
                   filterIgnoredTypes (create\<lparr>ignore := [''null'']\<rparr>) p = None"
    by (auto split: sum.splits)
  from all_signatures_ignored[OF _ this, of "''f''"]
  obtain tf where
    tf: "createTypedFunction (create\<lparr>ignore := [''null'']\<rparr>) ''f''
           [(''null'', tagged ''a''), (''number, null'', tagged ''b'')] = Inr tf"
    and sg: "signatures tf = Map.empty"
    and call: "\<And>typed' args. typed_call typed' tf args =
                   Inl (TypeError
                          (''Too few arguments in function '' @
                           (if ''f'' = [] then ''unnamed'' else ''f'') @
                           '' (expected: , index: '' @ string_of_nat (length args) @ '')'')
                          (TooFewArgs (if ''f'' = [] then ''unnamed'' else ''f'') (length args) []))"
    by auto
  have n: "string_of_nat (length [VNull]) = ''1''" by code_simp
  show ?thesis
    using tf sg call[of create "[VNull]"] unfolding n by auto
qed

end
